theory Spec2Isabelle
  imports Complex_Main "HOL-Library.AList"
begin

section \<open>The room server of src/app/api/building/[roomId]/route.ts\<close>

text \<open>
  The file holds two versions of the route; the model follows the second one (the one
  with players, lines 154 to 364), which is the one the specification describes.
\<close>

subsection \<open>JavaScript values\<close>

text \<open>
  A JavaScript \<^verbatim>\<open>number\<close>, as \<^verbatim>\<open>JSON.parse\<close> has read it. The server never computes with
  a number of a payload: it stores it, compares it and sends it on.
\<close>

type_synonym number = real

text \<open>
  What \<^verbatim>\<open>req.json()\<close> gives is typed \<^verbatim>\<open>any\<close>: the interfaces \<^verbatim>\<open>IBlockPosition\<close> and
  \<^verbatim>\<open>IPlayerPosition\<close> are annotations that nothing checks at run time. A payload is a
  JSON value. An object lists its members in the order of the text; where a key occurs
  twice, \<^verbatim>\<open>JSON.parse\<close> keeps the last value. \<^verbatim>\<open>undefined\<close> is \<open>None\<close>.
\<close>

datatype json =
    JNull
  | JBool bool
  | JNumber number
  | JString string
  | JArray "json list"
  | JObject "(string \<times> json) list"

type_synonym js = "json option"

text \<open>
  \<^verbatim>\<open>v.k\<close> for one of the keys the route reads (\<^verbatim>\<open>action\<close>, \<^verbatim>\<open>sender\<close>, \<^verbatim>\<open>block\<close>,
  \<^verbatim>\<open>blockId\<close>, \<^verbatim>\<open>position\<close>, \<^verbatim>\<open>x\<close>, \<^verbatim>\<open>y\<close>, \<^verbatim>\<open>z\<close>, \<^verbatim>\<open>id\<close>): an object gives
  its member, and a number, a string, a boolean or an array gives \<^verbatim>\<open>undefined\<close>, since
  no prototype has a property of these names. On \<^verbatim>\<open>null\<close> and \<^verbatim>\<open>undefined\<close> the read
  throws: the callers test \<open>nullish\<close> first.
\<close>

fun property :: "string \<Rightarrow> js \<Rightarrow> js" where
  "property k (Some (JObject members)) = map_of (rev members) k"
| "property k v = None"

fun nullish :: "js \<Rightarrow> bool" where
  "nullish None = True"
| "nullish (Some JNull) = True"
| "nullish v = False"

text \<open>The values that \<^verbatim>\<open>&&\<close> and \<^verbatim>\<open>||\<close> take for true.\<close>

fun truthy :: "js \<Rightarrow> bool" where
  "truthy None = False"
| "truthy (Some JNull) = False"
| "truthy (Some (JBool b)) = b"
| "truthy (Some (JNumber n)) = (n \<noteq> 0)"
| "truthy (Some (JString s)) = (s \<noteq> [])"
| "truthy (Some (JArray vs)) = True"
| "truthy (Some (JObject members)) = True"

text \<open>
  A template literal converts each value to a string. The conversion of an object calls
  its \<^verbatim>\<open>toString\<close> and then its \<^verbatim>\<open>valueOf\<close>; a parsed object that has a member
  \<^verbatim>\<open>toString\<close> hides \<^verbatim>\<open>Object.prototype.toString\<close> behind a value that cannot be called,
  \<^verbatim>\<open>valueOf\<close> gives no primitive, and the conversion throws a \<^verbatim>\<open>TypeError\<close>. An array
  joins the conversions of its elements (\<^verbatim>\<open>null\<close> gives the empty string). Every other
  value, \<^verbatim>\<open>undefined\<close> too, has a string.
\<close>

fun unprintable :: "json \<Rightarrow> bool" where
  "unprintable (JObject members) = (''toString'' \<in> fst ` set members)"
| "unprintable (JArray vs) = (\<exists>v \<in> set vs. unprintable v)"
| "unprintable v = False"

fun ToString_throws :: "js \<Rightarrow> bool" where
  "ToString_throws None = False"
| "ToString_throws (Some v) = unprintable v"

text \<open>
  \<^verbatim>\<open>a === b\<close>, for a value stored by an earlier request and a value of this request:
  primitives are compared by value, and an array or an object is equal only to itself,
  so never to a value of another request.
\<close>

fun strict_equal :: "js \<Rightarrow> js \<Rightarrow> bool" where
  "strict_equal None None = True"
| "strict_equal (Some JNull) (Some JNull) = True"
| "strict_equal (Some (JBool a)) (Some (JBool b)) = (a = b)"
| "strict_equal (Some (JNumber a)) (Some (JNumber b)) = (a = b)"
| "strict_equal (Some (JString a)) (Some (JString b)) = (a = b)"
| "strict_equal a b = False"

subsection \<open>Data\<close>

text \<open>
  A player as the \<^verbatim>\<open>players\<close> map holds it. \<^verbatim>\<open>x\<close>, \<^verbatim>\<open>y\<close> and \<^verbatim>\<open>z\<close> start as the number 0
  and are overwritten with whatever the \<^verbatim>\<open>position\<close> of a payload has under these keys.
\<close>

record IPlayerPosition =
  x :: js
  y :: js
  z :: js
  name :: string

text \<open>
  The frames written to a stream: \<^verbatim>\<open>{type: "init", blocks, players}\<close>,
  \<^verbatim>\<open>{type: "add", block, sender}\<close>, \<^verbatim>\<open>{type: "remove", blockId, sender}\<close>, \<^verbatim>\<open>{type: "clear"}\<close>,
  \<^verbatim>\<open>{type: "player_joined" | "player_left", name, playerCount}\<close> and
  \<^verbatim>\<open>{type: "player_moved", name, position}\<close>, with the values of the payload as they came.
  The serialisation to \<^verbatim>\<open>data: <json>\n\n\<close> is left abstract.
\<close>

datatype event =
    Init "js list" "IPlayerPosition list"
  | Add js js
  | Remove js js
  | Clear
  | Player_joined string nat
  | Player_left string nat
  | Player_moved string js

text \<open>
  A \<^verbatim>\<open>ReadableStreamDefaultController\<close> is an object with an identity and a state of its
  own, shared by the room's \<^verbatim>\<open>clients\<close> set and by the abort listener of its request: it is
  an address (a number) into a store of streams. A stream is \<open>broken\<close> when
  \<^verbatim>\<open>controller.enqueue\<close> throws on it (the stream was closed, cancelled or errored);
  otherwise \<^verbatim>\<open>enqueue\<close> appends the frame to what the stream has been given.
\<close>

type_synonym controller = nat

record stream =
  broken :: bool
  enqueued :: "event list"

text \<open>
  A room. \<^verbatim>\<open>blocks\<close> is declared \<^verbatim>\<open>IBlockPosition[]\<close>, but \<^verbatim>\<open>push(data.block)\<close> stores
  whatever the payload has under \<^verbatim>\<open>block\<close>, \<^verbatim>\<open>undefined\<close> included. The \<^verbatim>\<open>Set\<close> of clients
  and the \<^verbatim>\<open>Map\<close> of players iterate in insertion order: a list of controllers and an
  association list.
\<close>

record room =
  blocks :: "js list"
  clients :: "controller list"
  players :: "(string \<times> IPlayerPosition) list"

text \<open>
  The line the console gets from \<^verbatim>\<open>broadcastToRoom\<close>: the number of clients, the room and
  the data. The other \<^verbatim>\<open>console.log\<close> calls are not recorded; three of them can throw
  while they build their message, and those throws are branches of \<open>POST\<close> below.
\<close>

datatype log_line = Broadcasting nat string event

text \<open>
  The process: the module-level \<^verbatim>\<open>rooms\<close> map, the store of streams with the next unused
  address, the abort listeners (the closure of a listener is its room id and its player
  name, filed under the controller of its request), and the console.
\<close>

record server =
  rooms :: "string \<rightharpoonup> room"
  streams :: "controller \<Rightarrow> stream"
  unused :: controller
  listeners :: "controller \<rightharpoonup> string \<times> string"
  console :: "log_line list"

definition start_server :: server where
  "start_server =
     \<lparr>rooms = Map.empty, streams = (\<lambda>_. \<lparr>broken = False, enqueued = []\<rparr>), unused = 0,
      listeners = Map.empty, console = []\<rparr>"

text \<open>The body of a POST: \<^verbatim>\<open>req.json()\<close> rejects (\<open>JSON_error\<close>), or gives a value.\<close>

datatype request_body = JSON_error | JSON json

text \<open>
  \<^verbatim>\<open>{success: true}\<close>, \<^verbatim>\<open>{error: "Invalid action"}\<close> with status 400 and
  \<^verbatim>\<open>{error: "Internal server error"}\<close> with status 500.
\<close>

datatype response = Success | Invalid_action | Internal_server_error

subsection \<open>The room store\<close>

definition new_room :: room where
  "new_room = \<lparr>blocks = [], clients = [], players = []\<rparr>"

text \<open>
  \<^verbatim>\<open>getOrCreateRoom\<close> returns a reference to the room object. Rooms are never replaced in
  the map, so the reference is the room id: \<open>room_at\<close> reads through it and \<open>modify_room\<close>
  writes through it.
\<close>

definition getOrCreateRoom :: "string \<Rightarrow> server \<Rightarrow> server" where
  "getOrCreateRoom roomId s =
     (if rooms s roomId = None then s\<lparr>rooms := (rooms s)(roomId \<mapsto> new_room)\<rparr> else s)"

definition room_at :: "server \<Rightarrow> string \<Rightarrow> room" where
  "room_at s roomId = (case rooms s roomId of None \<Rightarrow> new_room | Some room \<Rightarrow> room)"

definition modify_room :: "string \<Rightarrow> (room \<Rightarrow> room) \<Rightarrow> server \<Rightarrow> server" where
  "modify_room roomId f s =
     (case rooms s roomId of
        None \<Rightarrow> s
      | Some room \<Rightarrow> s\<lparr>rooms := (rooms s)(roomId \<mapsto> f room)\<rparr>)"

subsection \<open>Broadcast\<close>

text \<open>
  The body of the \<^verbatim>\<open>forEach\<close>: \<^verbatim>\<open>enqueue\<close>, and in the \<^verbatim>\<open>catch\<close> the controller is
  deleted from the room's clients.
\<close>

definition deliver :: "string \<Rightarrow> event \<Rightarrow> controller \<Rightarrow> server \<Rightarrow> server" where
  "deliver roomId data controller s =
     (if broken (streams s controller)
      then modify_room roomId (\<lambda>room. room\<lparr>clients := removeAll controller (clients room)\<rparr>) s
      else s\<lparr>streams := (streams s)
             (controller := (streams s controller)
                \<lparr>enqueued := enqueued (streams s controller) @ [data]\<rparr>)\<rparr>)"

text \<open>
  \<^verbatim>\<open>Set.prototype.forEach\<close> visits the members in insertion order; the only member
  deleted during the visit is the one being visited, so the visit runs over the members
  the set had when it began. \<^verbatim>\<open>JSON.stringify\<close> does not throw on a frame whose values
  came from \<^verbatim>\<open>JSON.parse\<close>.
\<close>

definition broadcastToRoom :: "string \<Rightarrow> event \<Rightarrow> server \<Rightarrow> server" where
  "broadcastToRoom roomId data s =
     (case rooms s roomId of
        None \<Rightarrow> s
      | Some room \<Rightarrow>
          fold (deliver roomId data) (clients room)
            (s\<lparr>console := console s @ [Broadcasting (length (clients room)) roomId data]\<rparr>))"

subsection \<open>GET: the stream endpoint\<close>

text \<open>\<^verbatim>\<open>req.nextUrl.searchParams.get('name') || 'Anonymous'\<close>: no name and the empty name
  both give \<^verbatim>\<open>'Anonymous'\<close>.\<close>

definition playerName :: "string option \<Rightarrow> string" where
  "playerName name_param =
     (case name_param of
        None \<Rightarrow> ''Anonymous''
      | Some n \<Rightarrow> if n = [] then ''Anonymous'' else n)"

text \<open>\<^verbatim>\<open>Set.prototype.add\<close>.\<close>

definition set_add :: "'a \<Rightarrow> 'a list \<Rightarrow> 'a list" where
  "set_add a as = (if a \<in> set as then as else as @ [a])"

text \<open>
  \<^verbatim>\<open>Map.prototype.has\<close>, \<^verbatim>\<open>set\<close> and \<^verbatim>\<open>delete\<close> on the players are \<open>map_of\<close>,
  \<open>AList.update\<close> (a new key goes to the end) and \<open>AList.delete\<close>. The
  \<^verbatim>\<open>ReadableStream\<close> constructor runs \<^verbatim>\<open>start\<close> at once, with a new controller: the
  init frame is enqueued on it, it joins the clients, and the abort listener is
  registered.
\<close>

definition GET :: "string \<Rightarrow> string option \<Rightarrow> server \<Rightarrow> server" where
  "GET roomId name_param s =
     (let n = playerName name_param;
          s1 = getOrCreateRoom roomId s;
          s2 = (if map_of (players (room_at s1 roomId)) n = None
                then
                  (let s' = modify_room roomId
                         (\<lambda>room. room\<lparr>players :=
                            AList.update n
                              \<lparr>x = Some (JNumber 0), y = Some (JNumber 0), z = Some (JNumber 0),
                               name = n\<rparr>
                              (players room)\<rparr>) s1
                   in broadcastToRoom roomId
                        (Player_joined n (length (players (room_at s' roomId)))) s')
                else s1);
          controller = unused s2;
          initialData = Init (blocks (room_at s2 roomId)) (map snd (players (room_at s2 roomId)));
          s3 = s2\<lparr>streams := (streams s2)(controller := \<lparr>broken = False, enqueued = [initialData]\<rparr>),
                  unused := Suc controller\<rparr>;
          s4 = modify_room roomId (\<lambda>room. room\<lparr>clients := set_add controller (clients room)\<rparr>) s3
      in s4\<lparr>listeners := (listeners s4)(controller \<mapsto> (roomId, n))\<rparr>)"

text \<open>
  The request's signal fires \<^verbatim>\<open>abort\<close>. An \<^verbatim>\<open>AbortSignal\<close> dispatches the event once, so
  the listener is used up by the call. The listener deletes the controller and the player
  name from the room and broadcasts \<^verbatim>\<open>player_left\<close>.
\<close>

definition abort :: "controller \<Rightarrow> server \<Rightarrow> server" where
  "abort controller s =
     (case listeners s controller of
        None \<Rightarrow> s
      | Some (roomId, n) \<Rightarrow>
          (let s1 = s\<lparr>listeners := (listeners s)(controller := None)\<rparr>;
               s2 = modify_room roomId
                      (\<lambda>room. room\<lparr>clients := removeAll controller (clients room),
                                   players := AList.delete n (players room)\<rparr>) s1
           in broadcastToRoom roomId
                (Player_left n (length (players (room_at s2 roomId)))) s2))"

text \<open>The transport ends a stream (the peer went away, the stream was cancelled): from
  then on \<^verbatim>\<open>enqueue\<close> on its controller throws.\<close>

definition break_stream :: "controller \<Rightarrow> server \<Rightarrow> server" where
  "break_stream controller s =
     s\<lparr>streams := (streams s)(controller := (streams s controller)\<lparr>broken := True\<rparr>)\<rparr>"

subsection \<open>POST: the submission endpoint\<close>

text \<open>
  The first \<^verbatim>\<open>console.log\<close> of the \<^verbatim>\<open>try\<close> block (line 279) builds its message from
  \<^verbatim>\<open>data.action\<close> and \<^verbatim>\<open>data.sender || 'unknown'\<close>. It throws when \<^verbatim>\<open>data\<close> is
  \<^verbatim>\<open>null\<close>, when the action has no string, and when the sender is truthy and has no
  string. \<open>first_log\<close> says that it does not throw.
\<close>

definition first_log :: "json \<Rightarrow> bool" where
  "first_log data =
     (data \<noteq> JNull \<and>
      \<not> ToString_throws (property ''action'' (Some data)) \<and>
      \<not> (truthy (property ''sender'' (Some data)) \<and> ToString_throws (property ''sender'' (Some data))))"

text \<open>
  The \<^verbatim>\<open>try\<close> block, with every throw caught by its \<^verbatim>\<open>catch\<close> (status 500):
  \<^item> \<^verbatim>\<open>req.json()\<close> rejects, or the first \<^verbatim>\<open>console.log\<close> throws: both happen before
    \<^verbatim>\<open>getOrCreateRoom\<close>;
  \<^item> \<^verbatim>\<open>add\<close>: after the \<^verbatim>\<open>push\<close>, the \<^verbatim>\<open>console.log\<close> reads \<^verbatim>\<open>data.block.x\<close>,
    \<^verbatim>\<open>.y\<close> and \<^verbatim>\<open>.z\<close>, which throws when the block is \<^verbatim>\<open>undefined\<close> or \<^verbatim>\<open>null\<close>, and
    converts them to strings, which throws when one of them has no string;
  \<^item> \<^verbatim>\<open>remove\<close>: the \<^verbatim>\<open>filter\<close> callback reads \<^verbatim>\<open>block.id\<close> and throws on an entry
    that is \<^verbatim>\<open>undefined\<close> or \<^verbatim>\<open>null\<close>, before \<^verbatim>\<open>room.blocks\<close> is assigned; after the
    assignment the \<^verbatim>\<open>console.log\<close> converts \<^verbatim>\<open>data.blockId\<close> to a string.
  The \<^verbatim>\<open>switch\<close> compares \<^verbatim>\<open>data.action\<close> with \<^verbatim>\<open>===\<close>: only the string itself matches a
  case. \<^verbatim>\<open>room.players.has(data.sender)\<close> holds only for a string that is a key.
\<close>

definition POST :: "string \<Rightarrow> request_body \<Rightarrow> server \<Rightarrow> response \<times> server" where
  "POST roomId body s =
     (case body of
        JSON_error \<Rightarrow> (Internal_server_error, s)
      | JSON data \<Rightarrow>
          if \<not> first_log data then (Internal_server_error, s)
          else
            (let action = property ''action'' (Some data);
                 sender = property ''sender'' (Some data);
                 s1 = getOrCreateRoom roomId s;
                 room = room_at s1 roomId
             in
             if action = Some (JString ''add'') then
               (let block = property ''block'' (Some data);
                    s2 = modify_room roomId (\<lambda>room. room\<lparr>blocks := blocks room @ [block]\<rparr>) s1
                in if nullish block \<or> ToString_throws (property ''x'' block) \<or>
                      ToString_throws (property ''y'' block) \<or> ToString_throws (property ''z'' block)
                   then (Internal_server_error, s2)
                   else (Success, broadcastToRoom roomId (Add block sender) s2))
             else if action = Some (JString ''remove'') then
               (let blockId = property ''blockId'' (Some data) in
                if \<exists>block \<in> set (blocks room). nullish block then (Internal_server_error, s1)
                else
                  (let s2 = modify_room roomId
                              (\<lambda>room. room\<lparr>blocks :=
                                 filter (\<lambda>block. \<not> strict_equal (property ''id'' block) blockId)
                                   (blocks room)\<rparr>) s1
                   in if ToString_throws blockId then (Internal_server_error, s2)
                      else (Success, broadcastToRoom roomId (Remove blockId sender) s2)))
             else if action = Some (JString ''clear'') then
               (Success,
                broadcastToRoom roomId Clear (modify_room roomId (\<lambda>room. room\<lparr>blocks := []\<rparr>) s1))
             else if action = Some (JString ''update_position'') then
               (let position = property ''position'' (Some data) in
                if truthy sender \<and> truthy position then
                  (case sender of
                     Some (JString n) \<Rightarrow>
                       if map_of (players room) n \<noteq> None
                       then (Success,
                             broadcastToRoom roomId (Player_moved n position)
                               (modify_room roomId
                                  (\<lambda>room. room\<lparr>players :=
                                     AList.map_entry n
                                       (\<lambda>player. player\<lparr>x := property ''x'' position,
                                                         y := property ''y'' position,
                                                         z := property ''z'' position\<rparr>)
                                       (players room)\<rparr>) s1))
                       else (Success, s1)
                   | _ \<Rightarrow> (Success, s1))
                else (Success, s1))
             else (Invalid_action, s1)))"

subsection \<open>Runs of the server\<close>

datatype request =
    Subscribe string "string option"
  | Submit string request_body
  | Abort controller
  | Break controller

fun step :: "request \<Rightarrow> server \<Rightarrow> server" where
  "step (Subscribe roomId name_param) s = GET roomId name_param s"
| "step (Submit roomId body) s = snd (POST roomId body s)"
| "step (Abort controller) s = abort controller s"
| "step (Break controller) s = break_stream controller s"

definition run :: "request list \<Rightarrow> server \<Rightarrow> server" where
  "run reqs s = fold step reqs s"

inductive reachable :: "server \<Rightarrow> bool" where
  start: "reachable start_server"
| step: "reachable s \<Longrightarrow> reachable (step req s)"

subsection \<open>Notions the properties are stated with\<close>

text \<open>The ids of the blocks in a \<^verbatim>\<open>blocks\<close> array: the \<^verbatim>\<open>id\<close> of each entry that has one.\<close>

fun block_ids :: "js list \<Rightarrow> json list" where
  "block_ids [] = []"
| "block_ids (b # bs) =
     (case property ''id'' b of
        None \<Rightarrow> block_ids bs
      | Some i \<Rightarrow> i # block_ids bs)"

text \<open>
  The id a request adds to a room: the request is a POST to that room that gets past
  the first log line, its action is \<^verbatim>\<open>add\<close>, and its block has an \<^verbatim>\<open>id\<close>. The id a
  request removes from a room: the request is a POST to that room that gets past the
  first log line, its action is \<^verbatim>\<open>remove\<close>, and it has a \<^verbatim>\<open>blockId\<close>.
\<close>

definition added_id :: "string \<Rightarrow> request \<Rightarrow> js" where
  "added_id roomId req =
     (case req of
        Submit r (JSON data) \<Rightarrow>
          if r = roomId \<and> first_log data \<and> property ''action'' (Some data) = Some (JString ''add'')
          then property ''id'' (property ''block'' (Some data))
          else None
      | _ \<Rightarrow> None)"

definition removed_id :: "string \<Rightarrow> request \<Rightarrow> js" where
  "removed_id roomId req =
     (case req of
        Submit r (JSON data) \<Rightarrow>
          if r = roomId \<and> first_log data \<and>
             property ''action'' (Some data) = Some (JString ''remove'')
          then property ''blockId'' (Some data)
          else None
      | _ \<Rightarrow> None)"

definition adds :: "string \<Rightarrow> request list \<Rightarrow> json list" where
  "adds roomId reqs = List.map_filter (added_id roomId) reqs"

definition removes :: "string \<Rightarrow> request list \<Rightarrow> json list" where
  "removes roomId reqs = List.map_filter (removed_id roomId) reqs"

text \<open>Some id is added to the room by a request that comes after a remove of that id.\<close>

fun late_add :: "string \<Rightarrow> request list \<Rightarrow> bool" where
  "late_add roomId [] = False"
| "late_add roomId (req # reqs) =
     ((case removed_id roomId req of
         None \<Rightarrow> False
       | Some i \<Rightarrow> i \<in> set (adds roomId reqs))
      \<or> late_add roomId reqs)"

text \<open>An array or an object: a value that \<^verbatim>\<open>===\<close> compares by identity.\<close>

fun is_reference :: "js \<Rightarrow> bool" where
  "is_reference (Some (JArray vs)) = True"
| "is_reference (Some (JObject members)) = True"
| "is_reference v = False"

text \<open>
  A request that leaves the adds and removes of the room to themselves. It is not a POST
  to the room that gets past the first log line and
  \<^item> clears the room, or
  \<^item> is an add without a block (the block is \<^verbatim>\<open>undefined\<close> or \<^verbatim>\<open>null\<close>), or an add
    of a block whose \<^verbatim>\<open>x\<close>, \<^verbatim>\<open>y\<close> or \<^verbatim>\<open>z\<close> has no string, or
  \<^item> is a remove whose \<^verbatim>\<open>blockId\<close> is an array or an object.
  So it is an add of a block with printable coordinates, a remove with a primitive
  \<^verbatim>\<open>blockId\<close> or none, an \<^verbatim>\<open>update_position\<close>, an unknown action, a POST answered at
  the first log line, anything sent to another room, a subscription, a disconnection.
\<close>

definition undisturbed :: "string \<Rightarrow> request \<Rightarrow> bool" where
  "undisturbed roomId req =
     (case req of
        Submit r (JSON data) \<Rightarrow>
          \<not> (r = roomId \<and> first_log data \<and>
             (property ''action'' (Some data) = Some (JString ''clear'') \<or>
              property ''action'' (Some data) = Some (JString ''add'') \<and>
                (nullish (property ''block'' (Some data)) \<or>
                 ToString_throws (property ''x'' (property ''block'' (Some data))) \<or>
                 ToString_throws (property ''y'' (property ''block'' (Some data))) \<or>
                 ToString_throws (property ''z'' (property ''block'' (Some data)))) \<or>
              property ''action'' (Some data) = Some (JString ''remove'') \<and>
                is_reference (property ''blockId'' (Some data))))
      | _ \<Rightarrow> True)"

text \<open>At most one block per id, in every room.\<close>

definition one_block_per_id :: "server \<Rightarrow> bool" where
  "one_block_per_id s = (\<forall>r. distinct (block_ids (blocks (room_at s r))))"

text \<open>The request is an \<^verbatim>\<open>add\<close>, past the first log line, of a block whose id a block of
  the room already has.\<close>

definition adds_present_id :: "server \<Rightarrow> request \<Rightarrow> bool" where
  "adds_present_id s req =
     (case req of
        Submit r (JSON data) \<Rightarrow>
          first_log data \<and> property ''action'' (Some data) = Some (JString ''add'') \<and>
          (case property ''id'' (property ''block'' (Some data)) of
             None \<Rightarrow> False
           | Some i \<Rightarrow> i \<in> set (block_ids (blocks (room_at s r))))
      | _ \<Rightarrow> False)"

text \<open>The action is one of the four strings the \<^verbatim>\<open>switch\<close> knows.\<close>

definition recognized :: "js \<Rightarrow> bool" where
  "recognized a =
     (a = Some (JString ''add'') \<or> a = Some (JString ''remove'') \<or>
      a = Some (JString ''clear'') \<or> a = Some (JString ''update_position''))"

text \<open>The player a subscription registers: at the origin, under its name.\<close>

definition origin :: "string \<Rightarrow> IPlayerPosition" where
  "origin n = \<lparr>x = Some (JNumber 0), y = Some (JNumber 0), z = Some (JNumber 0), name = n\<rparr>"

text \<open>The frame is an \<^verbatim>\<open>init\<close> snapshot.\<close>

fun is_init :: "event \<Rightarrow> bool" where
  "is_init (Init bs ps) = True"
| "is_init ev = False"

text \<open>
  What a broadcast of an event to the clients \<open>cs\<close> enqueues, seen from the server before
  it: the event is appended to the stream of each client whose stream is not broken, and
  every other stream is as it was.
\<close>

definition after_broadcast :: "event \<Rightarrow> controller list \<Rightarrow> server \<Rightarrow> controller \<Rightarrow> stream" where
  "after_broadcast ev cs s c =
     (if c \<in> set cs \<and> \<not> broken (streams s c)
      then (streams s c)\<lparr>enqueued := enqueued (streams s c) @ [ev]\<rparr>
      else streams s c)"

subsection \<open>Example data\<close>

definition block_b1 :: json where
  "block_b1 =
     JObject [(''x'', JNumber 0), (''y'', JNumber 0), (''z'', JNumber 0),
              (''color'', JString ''red''), (''id'', JString ''b1'')]"

definition block_b2 :: json where
  "block_b2 =
     JObject [(''x'', JNumber 1), (''y'', JNumber 0), (''z'', JNumber 0),
              (''blockType'', JString ''stone_brick''), (''id'', JString ''b2'')]"

text \<open>The bodies the client sends: \<^verbatim>\<open>{action, ...data, sender: userName}\<close>.\<close>

definition add_body :: "json \<Rightarrow> string \<Rightarrow> request_body" where
  "add_body b who =
     JSON (JObject [(''action'', JString ''add''), (''block'', b), (''sender'', JString who)])"

definition remove_body :: "json \<Rightarrow> string \<Rightarrow> request_body" where
  "remove_body i who =
     JSON (JObject [(''action'', JString ''remove''), (''blockId'', i), (''sender'', JString who)])"

definition clear_body :: "string \<Rightarrow> request_body" where
  "clear_body who = JSON (JObject [(''action'', JString ''clear''), (''sender'', JString who)])"

definition update_position_body :: "json \<Rightarrow> string \<Rightarrow> request_body" where
  "update_position_body p who =
     JSON (JObject [(''action'', JString ''update_position''), (''position'', p),
                    (''sender'', JString who)])"

definition position_203 :: json where
  "position_203 = JObject [(''x'', JNumber 2), (''y'', JNumber 0), (''z'', JNumber 3)]"

text \<open>Alice, Bob and a nameless client subscribe to a room; then Bob's stream breaks.\<close>

definition three_clients :: server where
  "three_clients =
     run [Subscribe ''room'' (Some ''Alice''), Subscribe ''room'' (Some ''Bob''),
          Subscribe ''room'' None, Break 1] start_server"

text \<open>Alice subscribes and adds two blocks; then Bob subscribes.\<close>

definition busy_room :: server where
  "busy_room =
     run [Subscribe ''room'' (Some ''Alice''),
          Submit ''room'' (add_body block_b1 ''Alice''),
          Submit ''room'' (add_body block_b2 ''Alice''),
          Subscribe ''room'' (Some ''Bob'')] start_server"

text \<open>Two connections that give the same name.\<close>

definition same_name_twice :: server where
  "same_name_twice =
     run [Subscribe ''room'' (Some ''Alice''), Subscribe ''room'' (Some ''Alice'')] start_server"

text \<open>A room with one block.\<close>

definition one_block :: server where
  "one_block = step (Submit ''room'' (add_body block_b1 ''Alice'')) start_server"

text \<open>Two adds that carry the same block id.\<close>

definition same_id_twice :: server where
  "same_id_twice =
     run [Submit ''room'' (add_body block_b1 ''Alice''),
          Submit ''room'' (add_body block_b1 ''Bob'')] start_server"

text \<open>Adds and a remove to one room, with an \<^verbatim>\<open>update_position\<close> and a \<^verbatim>\<open>clear\<close> of another
  room in between.\<close>

definition example_edits :: "request list" where
  "example_edits =
     [Submit ''room'' (add_body block_b1 ''Alice''),
      Submit ''room'' (update_position_body position_203 ''Alice''),
      Submit ''other'' (clear_body ''Bob''),
      Submit ''room'' (add_body block_b2 ''Bob''),
      Submit ''room'' (remove_body (JString ''b1'') ''Bob'')]"

text \<open>A remove that arrives before the add of its id.\<close>

definition stale_remove :: "request list" where
  "stale_remove =
     [Submit ''room'' (remove_body (JString ''b1'') ''Alice''),
      Submit ''room'' (add_body block_b1 ''Alice'')]"

text \<open>Position updates, from a player of \<open>busy_room\<close> and from a stranger.\<close>

definition alice_moves :: json where
  "alice_moves =
     JObject [(''action'', JString ''update_position''), (''position'', position_203),
              (''sender'', JString ''Alice'')]"

definition zed_moves :: json where
  "zed_moves =
     JObject [(''action'', JString ''update_position''), (''position'', position_203),
              (''sender'', JString ''Zed'')]"

text \<open>Payloads with a field missing.\<close>

definition add_without_block :: json where
  "add_without_block = JObject [(''action'', JString ''add''), (''sender'', JString ''Alice'')]"



text \<open>A payload with an action the \<^verbatim>\<open>switch\<close> does not know, and payloads whose action or
  sender has no string.\<close>

definition unknown_action :: json where
  "unknown_action = JObject [(''action'', JString ''explode''), (''sender'', JString ''Alice'')]"

definition action_without_string :: json where
  "action_without_string = JObject [(''action'', JObject [(''toString'', JNull)])]"

definition sender_without_string :: json where
  "sender_without_string =
     JObject [(''action'', JString ''update_position''),
              (''sender'', JObject [(''toString'', JNull)])]"

text \<open>A fresh server after an \<^verbatim>\<open>add\<close> without a block.\<close>

definition poisoned_room :: server where
  "poisoned_room = step (Submit ''room'' (JSON add_without_block)) start_server"

section \<open>Properties\<close>

subsection \<open>The room store\<close>

lemma getOrCreateRoom_fields [simp]:
  "streams (getOrCreateRoom r s) = streams s"
  "unused (getOrCreateRoom r s) = unused s"
  "listeners (getOrCreateRoom r s) = listeners s"
  "console (getOrCreateRoom r s) = console s"
  by (simp_all add: getOrCreateRoom_def)

lemma rooms_getOrCreateRoom:
  "rooms (getOrCreateRoom r s) r' =
     (if r' = r \<and> rooms s r = None then Some new_room else rooms s r')"
  by (simp add: getOrCreateRoom_def)

lemma room_at_getOrCreateRoom [simp]:
  "room_at (getOrCreateRoom r s) r' = room_at s r'"
  by (simp add: getOrCreateRoom_def room_at_def)

lemma rooms_getOrCreateRoom_self [simp]:
  "rooms (getOrCreateRoom r s) r = Some (room_at s r)"
  by (simp add: getOrCreateRoom_def room_at_def split: option.splits)

lemma modify_room_fields [simp]:
  "streams (modify_room r f s) = streams s"
  "unused (modify_room r f s) = unused s"
  "listeners (modify_room r f s) = listeners s"
  "console (modify_room r f s) = console s"
  by (simp_all add: modify_room_def split: option.splits)

lemma rooms_modify_room:
  "rooms (modify_room r f s) r' = (if r' = r then map_option f (rooms s r) else rooms s r')"
  by (simp add: modify_room_def split: option.splits)

lemma room_at_modify_room:
  "room_at (modify_room r f s) r' =
     (if r' = r \<and> rooms s r \<noteq> None then f (room_at s r) else room_at s r')"
  by (auto simp: modify_room_def room_at_def split: option.splits)

subsection \<open>What a broadcast does\<close>

lemma deliver_fields [simp]:
  "unused (deliver r ev c s) = unused s"
  "listeners (deliver r ev c s) = listeners s"
  "console (deliver r ev c s) = console s"
  by (simp_all add: deliver_def)

lemma broken_deliver [simp]:
  "broken (streams (deliver r ev c s) c') = broken (streams s c')"
  by (simp add: deliver_def)

lemma streams_deliver:
  "streams (deliver r ev c s) c' =
     (if c' = c \<and> \<not> broken (streams s c)
      then (streams s c)\<lparr>enqueued := enqueued (streams s c) @ [ev]\<rparr>
      else streams s c')"
  by (simp add: deliver_def)

lemma rooms_deliver:
  "rooms (deliver r ev c s) r' =
     (if r' = r \<and> broken (streams s c)
      then map_option (\<lambda>room. room\<lparr>clients := removeAll c (clients room)\<rparr>) (rooms s r)
      else rooms s r')"
  by (simp add: deliver_def rooms_modify_room)

lemma fold_deliver_fields [simp]:
  "unused (fold (deliver r ev) cs s) = unused s"
  "listeners (fold (deliver r ev) cs s) = listeners s"
  "console (fold (deliver r ev) cs s) = console s"
  by (induction cs arbitrary: s; simp)+

lemma broken_fold_deliver [simp]:
  "broken (streams (fold (deliver r ev) cs s) c') = broken (streams s c')"
  by (induction cs arbitrary: s) simp_all

lemma streams_fold_deliver:
  "distinct cs \<Longrightarrow>
   streams (fold (deliver r ev) cs s) c =
     (if c \<in> set cs \<and> \<not> broken (streams s c)
      then (streams s c)\<lparr>enqueued := enqueued (streams s c) @ [ev]\<rparr>
      else streams s c)"
  by (induction cs arbitrary: s) (auto simp: streams_deliver)

lemma rooms_fold_deliver:
  "rooms (fold (deliver r ev) cs s) r' =
     (if r' = r
      then map_option
             (\<lambda>room. room\<lparr>clients :=
                filter (\<lambda>c. \<not> (c \<in> set cs \<and> broken (streams s c))) (clients room)\<rparr>)
             (rooms s r)
      else rooms s r')"
proof (induction cs arbitrary: s)
  case Nil
  show ?case by (simp add: option.map_ident)
next
  case (Cons c cs)
  have eq: "filter (\<lambda>a. \<not> (a \<in> set cs \<and> broken (streams s a)))
              (if broken (streams s c) then removeAll c xs else xs) =
            filter (\<lambda>a. \<not> (a \<in> set (c # cs) \<and> broken (streams s a))) xs" for xs
    by (induction xs) auto
  show ?case
  proof (cases "rooms s r")
    case None
    then show ?thesis by (simp add: Cons.IH rooms_deliver)
  next
    case (Some a)
    show ?thesis
      using eq [of "clients a"]
      by (cases "broken (streams s c)") (simp_all add: Cons.IH rooms_deliver Some del: set_simps)
  qed
qed

lemma broadcastToRoom_fields [simp]:
  "unused (broadcastToRoom r ev s) = unused s"
  "listeners (broadcastToRoom r ev s) = listeners s"
  by (simp_all add: broadcastToRoom_def split: option.splits)

lemma broken_broadcastToRoom [simp]:
  "broken (streams (broadcastToRoom r ev s) c) = broken (streams s c)"
  by (simp add: broadcastToRoom_def split: option.splits)

lemma console_broadcastToRoom:
  "console (broadcastToRoom r ev s) =
     (case rooms s r of
        None \<Rightarrow> console s
      | Some room \<Rightarrow> console s @ [Broadcasting (length (clients room)) r ev])"
  by (simp add: broadcastToRoom_def split: option.splits)

lemma rooms_broadcastToRoom:
  "rooms (broadcastToRoom r ev s) r' =
     (if r' = r
      then map_option
             (\<lambda>room. room\<lparr>clients := filter (\<lambda>c. \<not> broken (streams s c)) (clients room)\<rparr>)
             (rooms s r)
      else rooms s r')"
proof -
  have "filter (\<lambda>c. \<not> (c \<in> set cs \<and> broken (streams s c))) cs =
        filter (\<lambda>c. \<not> broken (streams s c)) cs" for cs
    by (rule filter_cong) auto
  then show ?thesis
    by (simp add: broadcastToRoom_def rooms_fold_deliver split: option.splits)
qed

lemma room_at_broadcastToRoom:
  "room_at (broadcastToRoom r ev s) r' =
     (if r' = r
      then (room_at s r)\<lparr>clients := filter (\<lambda>c. \<not> broken (streams s c)) (clients (room_at s r))\<rparr>
      else room_at s r')"
  by (simp add: room_at_def rooms_broadcastToRoom new_room_def split: option.splits)

lemma blocks_broadcastToRoom [simp]:
  "blocks (room_at (broadcastToRoom r ev s) r') = blocks (room_at s r')"
  by (simp add: room_at_broadcastToRoom)

lemma players_broadcastToRoom [simp]:
  "players (room_at (broadcastToRoom r ev s) r') = players (room_at s r')"
  by (simp add: room_at_broadcastToRoom)

lemma clients_broadcastToRoom:
  "clients (room_at (broadcastToRoom r ev s) r') =
     (if r' = r then filter (\<lambda>c. \<not> broken (streams s c)) (clients (room_at s r))
      else clients (room_at s r'))"
  by (simp add: room_at_broadcastToRoom)

lemma streams_broadcastToRoom:
  "distinct (clients (room_at s r)) \<Longrightarrow>
   streams (broadcastToRoom r ev s) c =
     (if c \<in> set (clients (room_at s r)) \<and> \<not> broken (streams s c)
      then (streams s c)\<lparr>enqueued := enqueued (streams s c) @ [ev]\<rparr>
      else streams s c)"
  by (simp add: broadcastToRoom_def room_at_def new_room_def streams_fold_deliver
           split: option.splits)

subsection \<open>The branches of POST\<close>

lemma POST_JSON_error [simp]: "POST r JSON_error s = (Internal_server_error, s)"
  by (simp add: POST_def)

lemma POST_no_log: "\<not> first_log d \<Longrightarrow> POST r (JSON d) s = (Internal_server_error, s)"
  by (simp add: POST_def)

lemma POST_add:
  assumes "first_log d" and "property ''action'' (Some d) = Some (JString ''add'')"
  shows "POST r (JSON d) s =
     (if nullish (property ''block'' (Some d)) \<or>
         ToString_throws (property ''x'' (property ''block'' (Some d))) \<or>
         ToString_throws (property ''y'' (property ''block'' (Some d))) \<or>
         ToString_throws (property ''z'' (property ''block'' (Some d)))
      then (Internal_server_error,
            modify_room r (\<lambda>room. room\<lparr>blocks := blocks room @ [property ''block'' (Some d)]\<rparr>)
              (getOrCreateRoom r s))
      else (Success,
            broadcastToRoom r (Add (property ''block'' (Some d)) (property ''sender'' (Some d)))
              (modify_room r (\<lambda>room. room\<lparr>blocks := blocks room @ [property ''block'' (Some d)]\<rparr>)
                 (getOrCreateRoom r s))))"
  using assms by (simp add: POST_def Let_def)

lemma POST_remove:
  assumes "first_log d" and "property ''action'' (Some d) = Some (JString ''remove'')"
  shows "POST r (JSON d) s =
     (if \<exists>block \<in> set (blocks (room_at s r)). nullish block
      then (Internal_server_error, getOrCreateRoom r s)
      else if ToString_throws (property ''blockId'' (Some d))
      then (Internal_server_error,
            modify_room r
              (\<lambda>room. room\<lparr>blocks :=
                 filter (\<lambda>block. \<not> strict_equal (property ''id'' block) (property ''blockId'' (Some d)))
                   (blocks room)\<rparr>)
              (getOrCreateRoom r s))
      else (Success,
            broadcastToRoom r (Remove (property ''blockId'' (Some d)) (property ''sender'' (Some d)))
              (modify_room r
                 (\<lambda>room. room\<lparr>blocks :=
                    filter (\<lambda>block. \<not> strict_equal (property ''id'' block) (property ''blockId'' (Some d)))
                      (blocks room)\<rparr>)
                 (getOrCreateRoom r s))))"
  using assms by (simp add: POST_def Let_def)

lemma POST_clear:
  assumes "first_log d" and "property ''action'' (Some d) = Some (JString ''clear'')"
  shows "POST r (JSON d) s =
     (Success,
      broadcastToRoom r Clear
        (modify_room r (\<lambda>room. room\<lparr>blocks := []\<rparr>) (getOrCreateRoom r s)))"
  using assms by (simp add: POST_def Let_def)

lemma POST_update_position:
  assumes "first_log d" and "property ''action'' (Some d) = Some (JString ''update_position'')"
  shows "POST r (JSON d) s =
     (if truthy (property ''sender'' (Some d)) \<and> truthy (property ''position'' (Some d)) then
        (case property ''sender'' (Some d) of
           Some (JString n) \<Rightarrow>
             if map_of (players (room_at s r)) n \<noteq> None
             then (Success,
                   broadcastToRoom r (Player_moved n (property ''position'' (Some d)))
                     (modify_room r
                        (\<lambda>room. room\<lparr>players :=
                           AList.map_entry n
                             (\<lambda>player. player\<lparr>x := property ''x'' (property ''position'' (Some d)),
                                               y := property ''y'' (property ''position'' (Some d)),
                                               z := property ''z'' (property ''position'' (Some d))\<rparr>)
                             (players room)\<rparr>)
                        (getOrCreateRoom r s)))
             else (Success, getOrCreateRoom r s)
         | _ \<Rightarrow> (Success, getOrCreateRoom r s))
      else (Success, getOrCreateRoom r s))"
  using assms by (simp add: POST_def Let_def split: option.splits json.splits)

lemma POST_unrecognized:
  assumes "first_log d" and "\<not> recognized (property ''action'' (Some d))"
  shows "POST r (JSON d) s = (Invalid_action, getOrCreateRoom r s)"
  using assms by (simp add: POST_def Let_def recognized_def)

lemma recognized_cases:
  "recognized a \<Longrightarrow>
   (a = Some (JString ''add'') \<Longrightarrow> P) \<Longrightarrow> (a = Some (JString ''remove'') \<Longrightarrow> P) \<Longrightarrow>
   (a = Some (JString ''clear'') \<Longrightarrow> P) \<Longrightarrow> (a = Some (JString ''update_position'') \<Longrightarrow> P) \<Longrightarrow> P"
  by (auto simp: recognized_def)

text \<open>
  Every POST is one of seven cases: answered before the room is looked up, one of the
  four branches of the \<^verbatim>\<open>switch\<close>, or its default.
\<close>

lemma POST_cases [case_names error no_log add remove clear update_position unrecognized]:
  assumes "body = JSON_error \<Longrightarrow> P"
    and "\<And>d. body = JSON d \<Longrightarrow> \<not> first_log d \<Longrightarrow> P"
    and "\<And>d. body = JSON d \<Longrightarrow> first_log d \<Longrightarrow>
           property ''action'' (Some d) = Some (JString ''add'') \<Longrightarrow> P"
    and "\<And>d. body = JSON d \<Longrightarrow> first_log d \<Longrightarrow>
           property ''action'' (Some d) = Some (JString ''remove'') \<Longrightarrow> P"
    and "\<And>d. body = JSON d \<Longrightarrow> first_log d \<Longrightarrow>
           property ''action'' (Some d) = Some (JString ''clear'') \<Longrightarrow> P"
    and "\<And>d. body = JSON d \<Longrightarrow> first_log d \<Longrightarrow>
           property ''action'' (Some d) = Some (JString ''update_position'') \<Longrightarrow> P"
    and "\<And>d. body = JSON d \<Longrightarrow> first_log d \<Longrightarrow>
           \<not> recognized (property ''action'' (Some d)) \<Longrightarrow> P"
  shows P
proof (cases body)
  case JSON_error
  then show ?thesis by (rule assms(1))
next
  case (JSON d)
  show ?thesis
  proof (cases "first_log d")
    case False
    with JSON show ?thesis by (rule assms(2))
  next
    case True
    show ?thesis
    proof (cases "recognized (property ''action'' (Some d))")
      case False
      with JSON True show ?thesis by (rule assms(7))
    next
      case r: True
      from r show ?thesis
        by (rule recognized_cases) (rule assms(3-6) [OF JSON True]; assumption)+
    qed
  qed
qed

subsection \<open>What POST leaves alone\<close>

lemma room_at_update_other [simp]:
  "room_at (s\<lparr>streams := f\<rparr>) r = room_at s r"
  "room_at (s\<lparr>unused := u\<rparr>) r = room_at s r"
  "room_at (s\<lparr>listeners := l\<rparr>) r = room_at s r"
  "room_at (s\<lparr>console := k\<rparr>) r = room_at s r"
  by (simp_all add: room_at_def)

lemma modify_room_getOrCreateRoom [simp]:
  "room_at (modify_room r f (getOrCreateRoom r s)) r' =
     (if r' = r then f (room_at s r) else room_at s r')"
  by (simp add: room_at_modify_room)

lemma getOrCreateRoom_existing: "rooms s r \<noteq> None \<Longrightarrow> getOrCreateRoom r s = s"
  by (auto simp: getOrCreateRoom_def)

lemma room_at_POST_other_room:
  assumes "r' \<noteq> r"
  shows "room_at (snd (POST r body s)) r' = room_at s r'"
proof (cases body rule: POST_cases)
  case (update_position d)
  then show ?thesis
    by (simp add: assms POST_update_position room_at_broadcastToRoom
          split: option.splits json.splits)
qed (simp_all add: assms POST_no_log POST_add POST_remove POST_clear POST_unrecognized
       room_at_broadcastToRoom)

lemma listeners_POST [simp]: "listeners (snd (POST r body s)) = listeners s"
proof (cases body rule: POST_cases)
  case (update_position d)
  then show ?thesis
    by (simp add: POST_update_position split: option.splits json.splits)
qed (simp_all add: POST_no_log POST_add POST_remove POST_clear POST_unrecognized)

lemma unused_POST [simp]: "unused (snd (POST r body s)) = unused s"
proof (cases body rule: POST_cases)
  case (update_position d)
  then show ?thesis
    by (simp add: POST_update_position split: option.splits json.splits)
qed (simp_all add: POST_no_log POST_add POST_remove POST_clear POST_unrecognized)

subsection \<open>The blocks of a room under POST\<close>

lemma blocks_POST:
  "blocks (room_at (snd (POST r (JSON d) s)) r) =
     (if first_log d \<and> property ''action'' (Some d) = Some (JString ''add'')
      then blocks (room_at s r) @ [property ''block'' (Some d)]
      else if first_log d \<and> property ''action'' (Some d) = Some (JString ''remove'') \<and>
              \<not> (\<exists>block \<in> set (blocks (room_at s r)). nullish block)
      then filter (\<lambda>block. \<not> strict_equal (property ''id'' block) (property ''blockId'' (Some d)))
             (blocks (room_at s r))
      else if first_log d \<and> property ''action'' (Some d) = Some (JString ''clear'') then []
      else blocks (room_at s r))"
proof (cases "JSON d" rule: POST_cases)
  case (update_position d')
  then show ?thesis
    by (simp add: POST_update_position split: option.splits json.splits)
next
  case (unrecognized d')
  then show ?thesis by (auto simp: POST_unrecognized recognized_def)
qed (simp_all add: POST_no_log POST_add POST_remove POST_clear)

lemma blocks_POST_other_room:
  "r' \<noteq> r \<Longrightarrow> blocks (room_at (snd (POST r body s)) r') = blocks (room_at s r')"
  by (simp add: room_at_POST_other_room)

subsection \<open>What GET does\<close>

lemma update_new_key:
  "map_of ps k = None \<Longrightarrow> AList.update k v ps = ps @ [(k, v)]"
  by (induction ps) (auto split: if_splits)

lemma room_at_GET:
  "room_at (GET r nm s) r' =
     (if r' = r
      then if map_of (players (room_at s r)) (playerName nm) = None
           then (room_at s r)
                  \<lparr>players := players (room_at s r) @ [(playerName nm, origin (playerName nm))],
                   clients := set_add (unused s)
                     (filter (\<lambda>c. \<not> broken (streams s c)) (clients (room_at s r)))\<rparr>
           else (room_at s r)\<lparr>clients := set_add (unused s) (clients (room_at s r))\<rparr>
      else room_at s r')"
  by (simp add: GET_def Let_def room_at_modify_room rooms_broadcastToRoom rooms_modify_room
        room_at_broadcastToRoom update_new_key origin_def)

lemma unused_GET [simp]: "unused (GET r nm s) = Suc (unused s)"
  by (simp add: GET_def Let_def)

lemma listeners_GET:
  "listeners (GET r nm s) = (listeners s)(unused s \<mapsto> (r, playerName nm))"
  by (simp add: GET_def Let_def)

lemma console_GET:
  "console (GET r nm s) =
     (if map_of (players (room_at s r)) (playerName nm) = None
      then console s @
           [Broadcasting (length (clients (room_at s r))) r
              (Player_joined (playerName nm) (Suc (length (players (room_at s r)))))]
      else console s)"
  by (simp add: GET_def Let_def console_broadcastToRoom rooms_modify_room update_new_key)

lemma stream_GET_new:
  "streams (GET r nm s) (unused s) =
     \<lparr>broken = False,
      enqueued = [Init (blocks (room_at (GET r nm s) r))
                       (map snd (players (room_at (GET r nm s) r)))]\<rparr>"
  by (simp add: room_at_GET)
     (simp add: GET_def Let_def update_new_key origin_def)

lemma filter_enqueued_deliver:
  "\<not> P ev \<Longrightarrow>
   filter P (enqueued (streams (deliver r ev c s) c')) = filter P (enqueued (streams s c'))"
  by (simp add: streams_deliver)

lemma filter_enqueued_fold_deliver:
  "\<not> P ev \<Longrightarrow>
   filter P (enqueued (streams (fold (deliver r ev) cs s) c')) =
     filter P (enqueued (streams s c'))"
  by (induction cs arbitrary: s) (simp_all add: filter_enqueued_deliver)

lemma filter_enqueued_broadcastToRoom:
  "\<not> P ev \<Longrightarrow>
   filter P (enqueued (streams (broadcastToRoom r ev s) c')) =
     filter P (enqueued (streams s c'))"
  by (simp add: broadcastToRoom_def filter_enqueued_fold_deliver split: option.splits)

lemma inits_GET_other:
  "c \<noteq> unused s \<Longrightarrow>
   filter is_init (enqueued (streams (GET r nm s) c)) = filter is_init (enqueued (streams s c))"
  by (simp add: GET_def Let_def filter_enqueued_broadcastToRoom)

lemma set_add_member [simp]: "a \<in> set (set_add a as)"
  by (simp add: set_add_def)

subsection \<open>What the abort listener does\<close>

lemma delete_remove_new_room:
  "new_room\<lparr>clients := [], players := []\<rparr> = new_room"
  by (simp add: new_room_def)

lemma room_at_abort:
  "listeners s c = Some (r, n) \<Longrightarrow>
   room_at (abort c s) r' =
     (if r' = r
      then (room_at s r)
             \<lparr>clients := filter (\<lambda>c'. \<not> broken (streams s c')) (removeAll c (clients (room_at s r))),
              players := AList.delete n (players (room_at s r))\<rparr>
      else room_at s r')"
  by (cases "rooms s r")
     (simp_all add: abort_def Let_def room_at_broadcastToRoom room_at_modify_room,
      simp_all add: room_at_def new_room_def)

lemma room_at_abort_idle:
  "listeners s c = None \<Longrightarrow> abort c s = s"
  by (simp add: abort_def)

lemma listeners_abort: "listeners (abort c s) = (listeners s)(c := None)"
  by (auto simp: abort_def Let_def split: option.splits)

lemma console_abort:
  "listeners s c = Some (r, n) \<Longrightarrow> rooms s r = Some room \<Longrightarrow>
   console (abort c s) =
     console s @
       [Broadcasting (length (removeAll c (clients room))) r
          (Player_left n (length (AList.delete n (players room))))]"
  by (simp add: abort_def Let_def console_broadcastToRoom rooms_modify_room room_at_modify_room
        room_at_def)

subsection \<open>What a broadcast enqueues\<close>

lemma streams_broadcastToRoom_after:
  "distinct (clients (room_at s r)) \<Longrightarrow>
   streams (broadcastToRoom r ev s) c = after_broadcast ev (clients (room_at s r)) s c"
  by (simp add: streams_broadcastToRoom after_broadcast_def)

lemma after_broadcast_frame [simp]:
  "after_broadcast ev cs (getOrCreateRoom r s) = after_broadcast ev cs s"
  "after_broadcast ev cs (modify_room r f s) = after_broadcast ev cs s"
  "after_broadcast ev cs (s\<lparr>listeners := l\<rparr>) = after_broadcast ev cs s"
  by (simp_all add: after_broadcast_def fun_eq_iff)

lemma streams_GET_other:
  assumes "c \<noteq> unused s" and "distinct (clients (room_at s r))"
  shows "streams (GET r nm s) c =
           (if map_of (players (room_at s r)) (playerName nm) = None
            then after_broadcast
                   (Player_joined (playerName nm) (Suc (length (players (room_at s r)))))
                   (clients (room_at s r)) s c
            else streams s c)"
  using assms
  by (simp add: GET_def Let_def streams_broadcastToRoom_after room_at_modify_room
        update_new_key)

lemma streams_abort:
  assumes "listeners s c = Some (r, n)" and "distinct (clients (room_at s r))"
  shows "streams (abort c s) c' =
           after_broadcast (Player_left n (length (AList.delete n (players (room_at s r)))))
             (removeAll c (clients (room_at s r))) s c'"
proof (cases "rooms s r")
  case None
  then have "room_at s r = new_room"
    by (simp add: room_at_def)
  with None assms(1) show ?thesis
    by (simp add: abort_def Let_def broadcastToRoom_def modify_room_def after_broadcast_def
          new_room_def)
next
  case (Some room)
  then have r: "room_at s r = room"
    by (simp add: room_at_def)
  have d: "distinct (removeAll c (clients room))"
    using assms(2) by (simp add: r distinct_removeAll)
  show ?thesis
    using assms(1) Some d
    by (simp add: abort_def Let_def streams_broadcastToRoom_after room_at_modify_room r)
qed

lemma console_abort_room_at:
  "listeners s c = Some (r, n) \<Longrightarrow> rooms s r \<noteq> None \<Longrightarrow>
   console (abort c s) =
     console s @
       [Broadcasting (length (removeAll c (clients (room_at s r)))) r
          (Player_left n (length (AList.delete n (players (room_at s r)))))]"
  by (auto simp: console_abort room_at_def)

subsection \<open>Player names\<close>

lemma keys_map_entry: "map fst (AList.map_entry k f ps) = map fst ps"
  by (induction ps) auto

lemma keys_players_POST:
  "map fst (players (room_at (snd (POST r body s)) r')) = map fst (players (room_at s r'))"
proof (cases body rule: POST_cases)
  case (update_position d)
  then show ?thesis
    by (simp add: POST_update_position room_at_modify_room keys_map_entry
          split: option.splits json.splits)
qed (simp_all add: POST_no_log POST_add POST_remove POST_clear POST_unrecognized
       room_at_modify_room)

lemma room_at_break_stream [simp]: "room_at (break_stream c s) r = room_at s r"
  by (simp add: break_stream_def)

lemma playerName_not_empty [simp]: "playerName nm \<noteq> []" "[] \<noteq> playerName nm"
  by (simp_all add: playerName_def split: option.splits)

lemma keys_players_abort:
  "set (map fst (players (room_at (abort c s) r))) \<subseteq> set (map fst (players (room_at s r)))"
proof (cases "listeners s c")
  case None
  then show ?thesis by (simp add: room_at_abort_idle)
next
  case (Some a)
  obtain r' n where "a = (r', n)" by (cases a)
  with Some show ?thesis
    using dom_delete_subset [of n "players (room_at s r')"]
    by (auto simp: room_at_abort)
qed

text \<open>No player of a reachable server has the empty name: GET replaces it by
  \<^verbatim>\<open>'Anonymous'\<close>.\<close>

lemma reachable_names:
  "reachable s \<Longrightarrow> [] \<notin> set (map fst (players (room_at s r)))"
proof (induction arbitrary: r rule: reachable.induct)
  case start
  show ?case by (simp add: start_server_def room_at_def new_room_def)
next
  case (step s req)
  show ?case
  proof (cases req)
    case (Subscribe r' nm)
    with step.IH [of r] show ?thesis by (auto simp: room_at_GET)
  next
    case (Submit r' body)
    with step.IH [of r] show ?thesis by (simp add: keys_players_POST del: set_map)
  next
    case (Abort c)
    with step.IH [of r] keys_players_abort [of c s r] show ?thesis by auto
  next
    case (Break c)
    with step.IH [of r] show ?thesis by simp
  qed
qed

subsection \<open>Block ids\<close>

lemma blocks_GET [simp]: "blocks (room_at (GET r nm s) r') = blocks (room_at s r')"
  by (simp add: room_at_GET)

lemma blocks_abort [simp]: "blocks (room_at (abort c s) r') = blocks (room_at s r')"
proof (cases "listeners s c")
  case None
  then show ?thesis by (simp add: room_at_abort_idle)
next
  case (Some a)
  then show ?thesis by (cases a) (simp add: room_at_abort)
qed

lemma block_ids_append [simp]: "block_ids (bs @ cs) = block_ids bs @ block_ids cs"
  by (induction bs) (simp_all split: option.splits)

lemma block_ids_single:
  "block_ids [b] = (case property ''id'' b of None \<Rightarrow> [] | Some i \<Rightarrow> [i])"
  by (simp split: option.splits)

lemma block_ids_filter_subset: "set (block_ids (filter P bs)) \<subseteq> set (block_ids bs)"
  by (induction bs) (auto split: option.splits)

lemma distinct_block_ids_filter: "distinct (block_ids bs) \<Longrightarrow> distinct (block_ids (filter P bs))"
  using block_ids_filter_subset [of P]
  by (induction bs) (auto simp: subset_iff split: option.splits)

text \<open>\<^verbatim>\<open>===\<close> against a primitive value is equality; against \<^verbatim>\<open>undefined\<close> it holds for
  the blocks that have no id.\<close>

lemma strict_equal_primitive:
  "\<not> is_reference (Some i) \<Longrightarrow> strict_equal v (Some i) \<longleftrightarrow> v = Some i"
  by (cases "(v, Some i)" rule: strict_equal.cases) auto

lemma strict_equal_undefined: "strict_equal v None \<longleftrightarrow> v = None"
  by (cases "(v, None :: js)" rule: strict_equal.cases) auto

lemma strict_equal_reference: "is_reference w \<Longrightarrow> \<not> strict_equal v w"
  by (cases "(v, w)" rule: strict_equal.cases) auto

lemma block_ids_remove_primitive:
  "\<not> is_reference (Some i) \<Longrightarrow>
   set (block_ids (filter (\<lambda>block. \<not> strict_equal (property ''id'' block) (Some i)) bs)) =
     set (block_ids bs) - {i}"
  by (induction bs) (auto simp: strict_equal_primitive split: option.splits)

lemma block_ids_remove_undefined:
  "block_ids (filter (\<lambda>block. \<not> strict_equal (property ''id'' block) None) bs) = block_ids bs"
  by (induction bs) (auto simp: strict_equal_undefined split: option.splits)

lemma filter_remove_absent:
  "i \<notin> set (block_ids bs) \<Longrightarrow>
   filter (\<lambda>block. \<not> strict_equal (property ''id'' block) (Some i)) bs = bs"
proof (induction bs)
  case Nil
  show ?case by simp
next
  case (Cons b bs)
  have "\<not> strict_equal (property ''id'' b) (Some i)"
  proof
    assume e: "strict_equal (property ''id'' b) (Some i)"
    then have "\<not> is_reference (Some i)"
      using strict_equal_reference by blast
    with e have "property ''id'' b = Some i"
      by (simp add: strict_equal_primitive)
    with Cons.prems show False by simp
  qed
  with Cons show ?case by (simp split: option.splits)
qed

subsection \<open>Runs\<close>

lemma reachable_run: "reachable s \<Longrightarrow> reachable (run reqs s)"
  unfolding run_def by (induction reqs arbitrary: s) (simp_all add: reachable.step)

lemma run_Cons: "run (req # reqs) s = run reqs (step req s)"
  by (simp add: run_def)

lemma blocks_step:
  "blocks (room_at (step req s) r) =
     (case req of
        Submit r' (JSON d) \<Rightarrow>
          if r' = r then blocks (room_at (snd (POST r (JSON d) s)) r) else blocks (room_at s r)
      | _ \<Rightarrow> blocks (room_at s r))"
  by (cases req) (auto simp: blocks_POST_other_room split: request_body.splits)

lemma no_nullish_step:
  assumes "undisturbed r req" and "\<forall>b \<in> set (blocks (room_at s r)). \<not> nullish b"
  shows "\<forall>b \<in> set (blocks (room_at (step req s) r)). \<not> nullish b"
  using assms
  by (auto simp: blocks_step blocks_POST undisturbed_def
        split: request.splits request_body.splits if_splits)

lemma ids_step:
  assumes "undisturbed r req" and "\<forall>b \<in> set (blocks (room_at s r)). \<not> nullish b"
  shows "set (block_ids (blocks (room_at (step req s) r))) =
           (case added_id r req of
              Some i \<Rightarrow> insert i (set (block_ids (blocks (room_at s r))))
            | None \<Rightarrow>
                (case removed_id r req of
                   Some i \<Rightarrow> set (block_ids (blocks (room_at s r))) - {i}
                 | None \<Rightarrow> set (block_ids (blocks (room_at s r)))))"
proof (cases req)
  case (Submit r' body)
  show ?thesis
  proof (cases body)
    case JSON_error
    then show ?thesis by (simp add: Submit added_id_def removed_id_def)
  next
    case (JSON d)
    note B = blocks_step [of req s r, unfolded Submit JSON, simplified]
    consider (add) "r' = r" "first_log d" "property ''action'' (Some d) = Some (JString ''add'')"
      | (remove) "r' = r" "first_log d"
          "property ''action'' (Some d) = Some (JString ''remove'')"
      | (other) "\<not> (r' = r \<and> first_log d \<and>
                   (property ''action'' (Some d) = Some (JString ''add'') \<or>
                    property ''action'' (Some d) = Some (JString ''remove'')))"
      by blast
    then show ?thesis
    proof cases
      case add
      then show ?thesis
        by (simp add: Submit JSON blocks_POST added_id_def removed_id_def block_ids_single
              split: option.splits)
    next
      case remove
      have n: "\<not> (\<exists>block \<in> set (blocks (room_at s r)). nullish block)"
        using assms(2) by blast
      show ?thesis
      proof (cases "property ''blockId'' (Some d)")
        case None
        with remove n show ?thesis
          by (simp add: Submit JSON blocks_POST added_id_def removed_id_def
                block_ids_remove_undefined)
      next
        case (Some i)
        have "\<not> is_reference (Some i)"
          using assms(1) remove Some by (simp add: undisturbed_def Submit JSON)
        with remove n Some show ?thesis
          by (simp add: Submit JSON blocks_POST added_id_def removed_id_def
                block_ids_remove_primitive)
      qed
    next
      case other
      have nc: "\<not> (r' = r \<and> first_log d \<and> property ''action'' (Some d) = Some (JString ''clear''))"
        using assms(1) by (auto simp: undisturbed_def Submit JSON)
      show ?thesis
      proof (cases "r' = r")
        case True
        with other nc show ?thesis
          by (auto simp: Submit JSON blocks_POST added_id_def removed_id_def)
      next
        case False
        then show ?thesis
          by (simp add: Submit JSON blocks_POST_other_room added_id_def removed_id_def)
      qed
    qed
  qed
qed (simp_all add: added_id_def removed_id_def)

lemma adds_Cons:
  "adds r (req # reqs) = (case added_id r req of None \<Rightarrow> adds r reqs | Some i \<Rightarrow> i # adds r reqs)"
  by (simp add: adds_def split: option.splits)

lemma removes_Cons:
  "removes r (req # reqs) =
     (case removed_id r req of None \<Rightarrow> removes r reqs | Some i \<Rightarrow> i # removes r reqs)"
  by (simp add: removes_def split: option.splits)

lemma added_not_removed: "added_id r req = Some i \<Longrightarrow> removed_id r req = None"
  by (auto simp: added_id_def removed_id_def split: request.splits request_body.splits if_splits)

lemma ids_run:
  assumes "\<forall>req \<in> set reqs. undisturbed r req"
    and "\<forall>b \<in> set (blocks (room_at s r)). \<not> nullish b"
    and "\<not> late_add r reqs"
  shows "set (block_ids (blocks (room_at (run reqs s) r))) =
           (set (block_ids (blocks (room_at s r))) \<union> set (adds r reqs)) - set (removes r reqs)"
  using assms
proof (induction reqs arbitrary: s)
  case Nil
  show ?case by (simp add: run_def adds_def removes_def)
next
  case (Cons req reqs)
  have u: "undisturbed r req" and us: "\<forall>req \<in> set reqs. undisturbed r req"
    using Cons.prems(1) by simp_all
  have n: "\<forall>b \<in> set (blocks (room_at (step req s) r)). \<not> nullish b"
    using u Cons.prems(2) by (rule no_nullish_step)
  have l: "\<not> late_add r reqs"
    using Cons.prems(3) by simp
  note IH = Cons.IH [OF us n l]
  show ?case
  proof (cases "added_id r req")
    case (Some i)
    then show ?thesis
      using added_not_removed [OF Some]
      by (auto simp: run_Cons IH ids_step [OF u Cons.prems(2)] adds_Cons removes_Cons)
  next
    case None
    show ?thesis
    proof (cases "removed_id r req")
      case None
      with \<open>added_id r req = None\<close> show ?thesis
        by (simp add: run_Cons IH ids_step [OF u Cons.prems(2)] adds_Cons removes_Cons)
    next
      case (Some i)
      then have "i \<notin> set (adds r reqs)"
        using Cons.prems(3) by simp
      with Some \<open>added_id r req = None\<close> show ?thesis
        by (auto simp: run_Cons IH ids_step [OF u Cons.prems(2)] adds_Cons removes_Cons)
    qed
  qed
qed

subsection \<open>The clients of a room stay a set\<close>

lemma distinct_set_add: "distinct as \<Longrightarrow> distinct (set_add a as)"
  by (simp add: set_add_def)

lemma clients_POST:
  "clients (room_at (snd (POST r body s)) r') = clients (room_at s r') \<or>
   clients (room_at (snd (POST r body s)) r') =
     filter (\<lambda>c. \<not> broken (streams s c)) (clients (room_at s r'))"
proof (cases body rule: POST_cases)
  case (update_position d)
  then show ?thesis
    by (simp add: POST_update_position room_at_modify_room clients_broadcastToRoom
          split: option.splits json.splits)
qed (simp_all add: POST_no_log POST_add POST_remove POST_clear POST_unrecognized
       room_at_modify_room clients_broadcastToRoom)

lemma distinct_clients_step:
  assumes "distinct (clients (room_at s r))"
  shows "distinct (clients (room_at (step req s) r))"
proof (cases req)
  case (Subscribe r' nm)
  with assms show ?thesis by (auto simp: room_at_GET intro!: distinct_set_add)
next
  case (Submit r' body)
  with assms clients_POST [of r' body s r] show ?thesis by auto
next
  case (Abort c)
  show ?thesis
  proof (cases "listeners s c")
    case None
    with assms show ?thesis by (simp add: Abort room_at_abort_idle)
  next
    case (Some a)
    with assms show ?thesis by (cases a) (auto simp: Abort room_at_abort distinct_removeAll)
  qed
next
  case (Break c)
  with assms show ?thesis by simp
qed

text \<open>The list of clients of a room has no duplicate in any reachable server, as the
  \<^verbatim>\<open>Set\<close> it stands for.\<close>

lemma reachable_clients_distinct: "reachable s \<Longrightarrow> distinct (clients (room_at s r))"
proof (induction rule: reachable.induct)
  case start
  show ?case by (simp add: start_server_def room_at_def new_room_def)
next
  case (step s req)
  from step.IH show ?case by (rule distinct_clients_step)
qed

subsection \<open>Rooms are never deleted, listeners are used once\<close>

text \<open>GET and a POST that gets past the first log line create the room they name; nothing
  removes a room. On a reachable server the room of every abort listener exists, and its
  controller is below the next unused one; a controller whose listener has run never gets
  a listener again.\<close>

lemma dom_rooms_getOrCreateRoom [simp]:
  "dom (rooms (getOrCreateRoom r s)) = insert r (dom (rooms s))"
  by (auto simp: getOrCreateRoom_def)

lemma dom_rooms_modify_room [simp]: "dom (rooms (modify_room r f s)) = dom (rooms s)"
  by (auto simp: modify_room_def split: option.splits)

lemma dom_rooms_broadcastToRoom [simp]: "dom (rooms (broadcastToRoom r ev s)) = dom (rooms s)"
  by (auto simp: dom_def rooms_broadcastToRoom)

lemma dom_rooms_GET: "dom (rooms (GET r nm s)) = insert r (dom (rooms s))"
  by (simp add: GET_def Let_def)

lemma dom_rooms_POST:
  "dom (rooms (snd (POST r body s))) =
     (case body of
        JSON_error \<Rightarrow> dom (rooms s)
      | JSON d \<Rightarrow> if first_log d then insert r (dom (rooms s)) else dom (rooms s))"
proof (cases body rule: POST_cases)
  case (update_position d)
  then show ?thesis
    by (simp add: POST_update_position split: option.splits json.splits)
qed (simp_all add: POST_no_log POST_add POST_remove POST_clear POST_unrecognized)

lemma dom_rooms_abort: "dom (rooms (abort c s)) = dom (rooms s)"
  by (simp add: abort_def Let_def split: option.splits)

lemma dom_rooms_step: "dom (rooms s) \<subseteq> dom (rooms (step req s))"
  by (cases req)
     (auto simp: dom_rooms_GET dom_rooms_abort dom_rooms_POST break_stream_def
        split: request_body.splits)

lemma reachable_listener_room:
  "reachable s \<Longrightarrow> listeners s c = Some (r, n) \<Longrightarrow> r \<in> dom (rooms s)"
proof (induction arbitrary: c r n rule: reachable.induct)
  case start
  then show ?case by (simp add: start_server_def)
next
  case (step s req)
  have old: "r \<in> dom (rooms (step req s))" if "listeners s c = Some (r, n)"
    using step.IH [OF that] dom_rooms_step [of s req] by blast
  show ?case
  proof (cases req)
    case (Subscribe r' nm)
    with step.prems old show ?thesis
      by (auto simp: listeners_GET dom_rooms_GET split: if_splits)
  next
    case (Submit r' body)
    with step.prems old show ?thesis by simp
  next
    case (Abort c')
    with step.prems old show ?thesis
      by (auto simp: listeners_abort split: if_splits)
  next
    case (Break c')
    with step.prems old show ?thesis by (simp add: break_stream_def)
  qed
qed

lemma unused_abort [simp]: "unused (abort c s) = unused s"
  by (simp add: abort_def Let_def split: option.splits)

lemma unused_step: "unused s \<le> unused (step req s)"
  by (cases req) (simp_all add: break_stream_def)

lemma reachable_listener_used:
  "reachable s \<Longrightarrow> listeners s c = Some a \<Longrightarrow> c < unused s"
proof (induction arbitrary: a rule: reachable.induct)
  case start
  then show ?case by (simp add: start_server_def)
next
  case (step s req)
  have old: "c < unused (step req s)" if "listeners s c = Some b" for b
    using step.IH [OF that] unused_step [of s req] by simp
  show ?case
  proof (cases req)
    case (Subscribe r' nm)
    with step.prems old show ?thesis
      by (auto simp: listeners_GET split: if_splits)
  next
    case (Submit r' body)
    with step.prems old show ?thesis by simp
  next
    case (Abort c')
    with step.prems old show ?thesis
      by (auto simp: listeners_abort split: if_splits)
  next
    case (Break c')
    with step.prems old show ?thesis by (simp add: break_stream_def)
  qed
qed

lemma used_up_step:
  assumes "c < unused s" and "listeners s c = None"
  shows "c < unused (step req s) \<and> listeners (step req s) c = None"
  using assms unused_step [of s req]
  by (cases req) (auto simp: listeners_GET listeners_abort break_stream_def)

lemma used_up_run:
  assumes "c < unused s" and "listeners s c = None"
  shows "c < unused (run reqs s) \<and> listeners (run reqs s) c = None"
  using assms
proof (induction reqs arbitrary: s)
  case Nil
  then show ?case by (simp add: run_def)
next
  case (Cons req reqs)
  from used_up_step [OF Cons.prems, of req] show ?case
    by (simp add: run_Cons Cons.IH)
qed

subsection \<open>What a mutation broadcasts\<close>

lemma streams_broadcast_modified:
  assumes "distinct (clients (room_at s r))" and "\<And>room. clients (f room) = clients room"
  shows "streams (broadcastToRoom r ev (modify_room r f (getOrCreateRoom r s))) c =
           after_broadcast ev (clients (room_at s r)) s c"
  using assms by (simp add: streams_broadcastToRoom_after)

lemma console_broadcast_modified:
  assumes "\<And>room. clients (f room) = clients room"
  shows "console (broadcastToRoom r ev (modify_room r f (getOrCreateRoom r s))) =
           console s @ [Broadcasting (length (clients (room_at s r))) r ev]"
  using assms by (simp add: console_broadcastToRoom rooms_modify_room)

lemma clients_broadcast_modified:
  assumes "\<And>room. clients (f room) = clients room"
  shows "clients (room_at (broadcastToRoom r ev (modify_room r f (getOrCreateRoom r s))) r) =
           filter (\<lambda>c. \<not> broken (streams s c)) (clients (room_at s r))"
  using assms by (simp add: clients_broadcastToRoom)

subsection \<open>Removing an id the room does not have\<close>

text \<open>
  In a room whose \<^verbatim>\<open>blocks\<close> hold no \<^verbatim>\<open>undefined\<close> or \<^verbatim>\<open>null\<close> entry, a remove of an id no
  block has is answered with success, leaves the blocks as they are and broadcasts the
  remove event with that id and the sender; a second remove of an id changes nothing
  more.
\<close>

lemma remove_absent_id:
  fixes s :: server and roomId :: string and d :: json
  defines "s' \<equiv> snd (POST roomId (JSON d) s)"
  assumes "first_log d" and "property ''action'' (Some d) = Some (JString ''remove'')"
    and "property ''blockId'' (Some d) = Some i" and "\<not> unprintable i"
    and "\<forall>b \<in> set (blocks (room_at s roomId)). \<not> nullish b"
    and "i \<notin> set (block_ids (blocks (room_at s roomId)))"
    and "distinct (clients (room_at s roomId))"
  shows "fst (POST roomId (JSON d) s) = Success \<and>
         blocks (room_at s' roomId) = blocks (room_at s roomId) \<and>
         (\<forall>c. streams s' c =
            after_broadcast (Remove (Some i) (property ''sender'' (Some d)))
              (clients (room_at s roomId)) s c) \<and>
         console s' =
           console s @
             [Broadcasting (length (clients (room_at s roomId))) roomId
                (Remove (Some i) (property ''sender'' (Some d)))]"
proof -
  have n: "\<not> (\<exists>block \<in> set (blocks (room_at s roomId)). nullish block)"
    using assms(6) by blast
  have P: "POST roomId (JSON d) s =
             (Success,
              broadcastToRoom roomId (Remove (Some i) (property ''sender'' (Some d)))
                (modify_room roomId
                   (\<lambda>room. room\<lparr>blocks :=
                      filter (\<lambda>block. \<not> strict_equal (property ''id'' block) (Some i))
                        (blocks room)\<rparr>)
                   (getOrCreateRoom roomId s)))"
    using assms(2-5) n by (simp add: POST_remove)
  have "blocks (room_at s' roomId) = blocks (room_at s roomId)"
    using assms(7) by (simp add: s'_def P filter_remove_absent)
  moreover have "streams s' c =
      after_broadcast (Remove (Some i) (property ''sender'' (Some d)))
        (clients (room_at s roomId)) s c" for c
    unfolding s'_def P snd_conv by (rule streams_broadcast_modified [OF assms(8)]) simp
  moreover have "console s' =
      console s @
        [Broadcasting (length (clients (room_at s roomId))) roomId
           (Remove (Some i) (property ''sender'' (Some d)))]"
    unfolding s'_def P snd_conv by (rule console_broadcast_modified) simp
  ultimately show ?thesis by (simp add: P)
qed

lemma remove_twice:
  fixes s :: server and roomId :: string and d :: json
  defines "s' \<equiv> snd (POST roomId (JSON d) s)"
  assumes "first_log d" and "property ''action'' (Some d) = Some (JString ''remove'')"
    and "\<forall>b \<in> set (blocks (room_at s roomId)). \<not> nullish b"
  shows "blocks (room_at (snd (POST roomId (JSON d) s')) roomId) = blocks (room_at s' roomId)"
  using assms(2-4) by (auto simp: s'_def blocks_POST)

subsection \<open>The example servers\<close>

lemma three_clients_room:
  "rooms three_clients ''room'' = Some (room_at three_clients ''room'')"
  "clients (room_at three_clients ''room'') = [0, Suc 0, 2]"
  "broken (streams three_clients 0) = False"
  "broken (streams three_clients (Suc 0)) = True"
  "broken (streams three_clients 2) = False"
  by code_simp+

lemma busy_room_facts:
  "unused busy_room = 2"
  "rooms busy_room ''room'' = Some (room_at busy_room ''room'')"
  "blocks (room_at busy_room ''room'') = [Some block_b1, Some block_b2]"
  "players (room_at busy_room ''room'') = [(''Alice'', origin ''Alice''), (''Bob'', origin ''Bob'')]"
  "clients (room_at busy_room ''room'') = [0, Suc 0]"
  "listeners busy_room (Suc 0) = Some (''room'', ''Bob'')"
  "broken (streams busy_room 0) = False"
  "broken (streams busy_room (Suc 0)) = False"
  "enqueued (streams busy_room 0) =
     [Init [] [origin ''Alice''],
      Add (Some block_b1) (Some (JString ''Alice'')),
      Add (Some block_b2) (Some (JString ''Alice'')),
      Player_joined ''Bob'' 2]"
  "enqueued (streams busy_room (Suc 0)) =
     [Init [Some block_b1, Some block_b2] [origin ''Alice'', origin ''Bob'']]"
  "length (console busy_room) = 4"
  by code_simp+

lemma reachable_busy_room: "reachable busy_room"
  unfolding busy_room_def by (rule reachable_run) (rule reachable.start)

lemma one_block_per_id_start: "one_block_per_id start_server"
  by (simp add: one_block_per_id_def room_at_def start_server_def new_room_def)

lemma first_log_string:
  assumes "property ''action'' (Some d) = Some (JString a)"
    and "\<not> ToString_throws (property ''sender'' (Some d))"
  shows "first_log d"
  using assms by (cases d) (auto simp: first_log_def)

section \<open>The claims\<close>

text \<open>
  C1. A remove deletes the blocks that are in the room when it arrives, so an id that is
  added after a remove of it stays in the room. Take a room without blocks and a run of
  requests in which
  \<^item> no id is added to the room after a remove of that id,
  \<^item> no POST to the room clears it,
  \<^item> every add to the room carries a block (not \<^verbatim>\<open>undefined\<close>, not \<^verbatim>\<open>null\<close>) whose
    \<^verbatim>\<open>x\<close>, \<^verbatim>\<open>y\<close> and \<^verbatim>\<open>z\<close> can be converted to strings,
  \<^item> no remove of the room has an array or an object for its \<^verbatim>\<open>blockId\<close>,
  where the adds, removes and clears of the room are the POSTs to it that get past the
  first log line (their action and sender can be converted to strings). Then the set of
  block ids in the room afterwards is the set of ids added minus the set of ids removed.
  The run may hold, besides the adds and removes of the room, position updates, unknown
  actions, POSTs answered at the first log line, any request to another room (a
  \<^verbatim>\<open>clear\<close> too), subscriptions, disconnections and broken streams.
\<close>

theorem block_ids_after_adds_and_removes:
  assumes "blocks (room_at s roomId) = []"
    and "\<forall>req \<in> set reqs. undisturbed roomId req"
    and "\<not> late_add roomId reqs"
  shows "set (block_ids (blocks (room_at (run reqs s) roomId))) =
           set (adds roomId reqs) - set (removes roomId reqs)"
  using ids_run [OF assms(2) _ assms(3), of s] assms(1) by simp

theorem block_ids_after_adds_and_removes_witness:
  "blocks (room_at start_server ''room'') = [] \<and>
   list_all (undisturbed ''room'') example_edits \<and>
   \<not> late_add ''room'' example_edits \<and>
   adds ''room'' example_edits = [JString ''b1'', JString ''b2''] \<and>
   removes ''room'' example_edits = [JString ''b1''] \<and>
   set (block_ids (blocks (room_at (run example_edits start_server) ''room''))) =
     {JString ''b2''}"
proof -
  have 1: "blocks (room_at start_server ''room'') = []"
    by code_simp
  have 2: "\<forall>req \<in> set example_edits. undisturbed ''room'' req"
    by code_simp
  have 3: "\<not> late_add ''room'' example_edits"
    by code_simp
  have 4: "adds ''room'' example_edits = [JString ''b1'', JString ''b2'']"
    by code_simp
  have 5: "removes ''room'' example_edits = [JString ''b1'']"
    by code_simp
  from block_ids_after_adds_and_removes [OF 1 2 3] 1 2 3 4 5 show ?thesis
    by (simp add: list_all_iff)
qed

theorem block_ids_after_adds_and_removes_counterexample:
  "blocks (room_at start_server ''room'') = [] \<and>
   block_ids (blocks (room_at (run stale_remove start_server) ''room'')) = [JString ''b1''] \<and>
   adds ''room'' stale_remove = [JString ''b1''] \<and>
   removes ''room'' stale_remove = [JString ''b1''] \<and>
   set (block_ids (blocks (room_at (run stale_remove start_server) ''room''))) \<noteq>
     set (adds ''room'' stale_remove) - set (removes ''room'' stale_remove)"
proof -
  have 1: "blocks (room_at start_server ''room'') = []"
    by code_simp
  have 2: "block_ids (blocks (room_at (run stale_remove start_server) ''room'')) =
             [JString ''b1'']"
    by code_simp
  have 3: "adds ''room'' stale_remove = [JString ''b1'']"
    by code_simp
  have 4: "removes ''room'' stale_remove = [JString ''b1'']"
    by code_simp
  show ?thesis
    by (simp add: 1 2 3 4)
qed

text \<open>
  C2. A subscription creates a stream that holds exactly one frame, the init snapshot of
  the room's blocks and players as they are once the subscription has registered its
  player: the blocks the room had, and the players it had followed by the one registered
  for this connection, if one was. This holds in every state of the server, whatever was
  broadcast before. The new controller joins the room's clients, and no other stream gets
  an init frame.
\<close>

theorem GET_init_snapshot:
  "streams (GET roomId name_param s) (unused s) =
     \<lparr>broken = False,
      enqueued = [Init (blocks (room_at (GET roomId name_param s) roomId))
                       (map snd (players (room_at (GET roomId name_param s) roomId)))]\<rparr> \<and>
   blocks (room_at (GET roomId name_param s) roomId) = blocks (room_at s roomId) \<and>
   players (room_at (GET roomId name_param s) roomId) =
     (if map_of (players (room_at s roomId)) (playerName name_param) = None
      then players (room_at s roomId) @ [(playerName name_param, origin (playerName name_param))]
      else players (room_at s roomId)) \<and>
   unused s \<in> set (clients (room_at (GET roomId name_param s) roomId)) \<and>
   (\<forall>c. c \<noteq> unused s \<longrightarrow>
      filter is_init (enqueued (streams (GET roomId name_param s) c)) =
        filter is_init (enqueued (streams s c)))"
proof (intro conjI allI impI)
  show "streams (GET roomId name_param s) (unused s) =
          \<lparr>broken = False,
           enqueued = [Init (blocks (room_at (GET roomId name_param s) roomId))
                            (map snd (players (room_at (GET roomId name_param s) roomId)))]\<rparr>"
    by (rule stream_GET_new)
  show "blocks (room_at (GET roomId name_param s) roomId) = blocks (room_at s roomId)"
    by (rule blocks_GET)
  show "players (room_at (GET roomId name_param s) roomId) =
          (if map_of (players (room_at s roomId)) (playerName name_param) = None
           then players (room_at s roomId) @
                  [(playerName name_param, origin (playerName name_param))]
           else players (room_at s roomId))"
    by (simp add: room_at_GET)
  show "unused s \<in> set (clients (room_at (GET roomId name_param s) roomId))"
    by (simp add: room_at_GET)
  fix c
  assume "c \<noteq> unused s"
  then show "filter is_init (enqueued (streams (GET roomId name_param s) c)) =
               filter is_init (enqueued (streams s c))"
    by (rule inits_GET_other)
qed

theorem GET_init_snapshot_witness:
  "0 \<noteq> unused busy_room \<and>
   streams (GET ''room'' (Some ''Carol'') busy_room) 2 =
     \<lparr>broken = False,
      enqueued = [Init [Some block_b1, Some block_b2]
                    [origin ''Alice'', origin ''Bob'', origin ''Carol'']]\<rparr> \<and>
   filter is_init (enqueued (streams (GET ''room'' (Some ''Carol'') busy_room) 0)) =
     [Init [] [origin ''Alice'']]"
  using GET_init_snapshot [of "''room''" "Some ''Carol''" busy_room]
  by (simp add: busy_room_facts playerName_def)

text \<open>
  C3. \<^verbatim>\<open>broadcastToRoom\<close> has no error result: each throw of \<^verbatim>\<open>enqueue\<close> is caught inside
  the loop. In a room whose clients are the members of a set, the clients left after a
  broadcast are those whose stream is not broken; each client with a broken stream is
  removed from the room, and each other client stays and has the event appended to its
  stream, whatever happens to the rest.
\<close>

theorem broadcastToRoom_self_heals:
  assumes "rooms s roomId = Some room" and "distinct (clients room)"
  shows "clients (room_at (broadcastToRoom roomId data s) roomId) =
           filter (\<lambda>c. \<not> broken (streams s c)) (clients room) \<and>
         (\<forall>c \<in> set (clients room).
            if broken (streams s c)
            then c \<notin> set (clients (room_at (broadcastToRoom roomId data s) roomId))
            else c \<in> set (clients (room_at (broadcastToRoom roomId data s) roomId)) \<and>
                 enqueued (streams (broadcastToRoom roomId data s) c) =
                   enqueued (streams s c) @ [data])"
proof -
  have r: "room_at s roomId = room"
    using assms(1) by (simp add: room_at_def)
  show ?thesis
    using assms(2) by (simp add: clients_broadcastToRoom streams_broadcastToRoom r)
qed

theorem broadcastToRoom_self_heals_witness:
  "rooms three_clients ''room'' = Some (room_at three_clients ''room'') \<and>
   distinct (clients (room_at three_clients ''room'')) \<and>
   clients (room_at three_clients ''room'') = [0, 1, 2] \<and>
   broken (streams three_clients 1) \<and>
   clients (room_at (broadcastToRoom ''room'' Clear three_clients) ''room'') = [0, 2] \<and>
   enqueued (streams (broadcastToRoom ''room'' Clear three_clients) 0) =
     enqueued (streams three_clients 0) @ [Clear] \<and>
   enqueued (streams (broadcastToRoom ''room'' Clear three_clients) 2) =
     enqueued (streams three_clients 2) @ [Clear]"
  using broadcastToRoom_self_heals
          [of three_clients "''room''" "room_at three_clients ''room''" Clear]
  by (simp add: three_clients_room)

text \<open>
  C4. The server does not look at ids when it adds a block. A request keeps "at most one
  block per id in every room", whatever its payload, unless it is an add of a block whose
  id a block of the room already has: that covers the other adds, remove, clear,
  \<^verbatim>\<open>update_position\<close>, subscribing and disconnecting.
\<close>

theorem step_keeps_one_block_per_id:
  assumes "one_block_per_id s" and "\<not> adds_present_id s req"
  shows "one_block_per_id (step req s)"
proof -
  have inv: "distinct (block_ids (blocks (room_at s r)))" for r
    using assms(1) by (simp add: one_block_per_id_def)
  have "distinct (block_ids (blocks (room_at (step req s) r)))" for r
  proof (cases req)
    case (Submit r' body)
    show ?thesis
    proof (cases "r = r'")
      case False
      then show ?thesis by (simp add: Submit blocks_POST_other_room inv)
    next
      case True
      show ?thesis
      proof (cases body)
        case (JSON d)
        have "i \<notin> set (block_ids (blocks (room_at s r)))"
          if "first_log d" "property ''action'' (Some d) = Some (JString ''add'')"
            "property ''id'' (property ''block'' (Some d)) = Some i" for i
          using assms(2) that by (simp add: adds_present_id_def Submit JSON True)
        then show ?thesis
          using inv [of r]
          by (auto simp: Submit True JSON blocks_POST block_ids_single
                distinct_block_ids_filter split: option.splits)
      qed (simp_all add: Submit inv)
    qed
  qed (simp_all add: inv)
  then show ?thesis by (simp add: one_block_per_id_def)
qed

theorem step_keeps_one_block_per_id_witness:
  "one_block_per_id one_block \<and>
   \<not> adds_present_id one_block (Submit ''room'' (add_body block_b2 ''Bob'')) \<and>
   one_block_per_id (step (Submit ''room'' (add_body block_b2 ''Bob'')) one_block) \<and>
   one_block_per_id (step (Submit ''room'' (remove_body (JString ''b1'') ''Bob'')) one_block)"
proof -
  have 0: "\<not> adds_present_id start_server (Submit ''room'' (add_body block_b1 ''Alice''))"
    by code_simp
  have 1: "one_block_per_id one_block"
    unfolding one_block_def by (rule step_keeps_one_block_per_id [OF one_block_per_id_start 0])
  have 2: "\<not> adds_present_id one_block (Submit ''room'' (add_body block_b2 ''Bob''))"
    by code_simp
  have 3: "\<not> adds_present_id one_block (Submit ''room'' (remove_body (JString ''b1'') ''Bob''))"
    by code_simp
  show ?thesis
    using 1 2 step_keeps_one_block_per_id [OF 1 2] step_keeps_one_block_per_id [OF 1 3]
    by simp
qed

theorem step_keeps_one_block_per_id_counterexample:
  "reachable same_id_twice \<and>
   block_ids (blocks (room_at same_id_twice ''room'')) = [JString ''b1'', JString ''b1''] \<and>
   \<not> one_block_per_id same_id_twice"
proof -
  have 1: "reachable same_id_twice"
    unfolding same_id_twice_def by (rule reachable_run) (rule reachable.start)
  have 2: "block_ids (blocks (room_at same_id_twice ''room'')) =
             [JString ''b1'', JString ''b1'']"
    by code_simp
  have "\<not> distinct (block_ids (blocks (room_at same_id_twice ''room'')))"
    by (simp add: 2)
  then have "\<not> one_block_per_id same_id_twice"
    unfolding one_block_per_id_def by blast
  with 1 2 show ?thesis by simp
qed

text \<open>
  C5. The player name of a connection is the name it supplies, or \<^verbatim>\<open>'Anonymous'\<close> when it
  supplies none or the empty one. On every reachable server: when that name is not a
  known player of the room, the subscription registers a player at the origin under it
  and broadcasts \<^verbatim>\<open>player_joined\<close> with that name and the new player count, so the event is
  appended to the stream of every client of the room whose stream is not broken, and
  every other stream that existed is as it was; when the name is known, the players are
  left as they are and nothing is broadcast: every stream that existed is as it was.
\<close>

theorem GET_registers_player:
  assumes "reachable s"
  shows
  "(map_of (players (room_at s roomId)) (playerName name_param) = None \<longrightarrow>
      players (room_at (GET roomId name_param s) roomId) =
        players (room_at s roomId) @
          [(playerName name_param,
            \<lparr>x = Some (JNumber 0), y = Some (JNumber 0), z = Some (JNumber 0),
             name = playerName name_param\<rparr>)] \<and>
      (\<forall>c. c \<noteq> unused s \<longrightarrow>
         streams (GET roomId name_param s) c =
           after_broadcast
             (Player_joined (playerName name_param) (Suc (length (players (room_at s roomId)))))
             (clients (room_at s roomId)) s c) \<and>
      console (GET roomId name_param s) =
        console s @
          [Broadcasting (length (clients (room_at s roomId))) roomId
             (Player_joined (playerName name_param) (Suc (length (players (room_at s roomId)))))]) \<and>
   (map_of (players (room_at s roomId)) (playerName name_param) \<noteq> None \<longrightarrow>
      players (room_at (GET roomId name_param s) roomId) = players (room_at s roomId) \<and>
      (\<forall>c. c \<noteq> unused s \<longrightarrow> streams (GET roomId name_param s) c = streams s c) \<and>
      console (GET roomId name_param s) = console s) \<and>
   playerName name_param =
     (if name_param = None \<or> name_param = Some [] then ''Anonymous'' else the name_param)"
proof (intro conjI impI allI)
  note d = reachable_clients_distinct [OF assms, of roomId]
  {
    assume new: "map_of (players (room_at s roomId)) (playerName name_param) = None"
    then show "players (room_at (GET roomId name_param s) roomId) =
                 players (room_at s roomId) @
                   [(playerName name_param,
                     \<lparr>x = Some (JNumber 0), y = Some (JNumber 0), z = Some (JNumber 0),
                      name = playerName name_param\<rparr>)]"
      by (simp add: room_at_GET origin_def)
    from new show "console (GET roomId name_param s) =
        console s @
          [Broadcasting (length (clients (room_at s roomId))) roomId
             (Player_joined (playerName name_param) (Suc (length (players (room_at s roomId)))))]"
      by (simp add: console_GET)
    fix c
    assume "c \<noteq> unused s"
    with new show "streams (GET roomId name_param s) c =
        after_broadcast
          (Player_joined (playerName name_param) (Suc (length (players (room_at s roomId)))))
          (clients (room_at s roomId)) s c"
      by (simp add: streams_GET_other [OF _ d])
  }
  {
    assume known: "map_of (players (room_at s roomId)) (playerName name_param) \<noteq> None"
    then show "players (room_at (GET roomId name_param s) roomId) = players (room_at s roomId)"
      by (auto simp: room_at_GET)
    from known show "console (GET roomId name_param s) = console s"
      by (auto simp: console_GET)
    fix c
    assume "c \<noteq> unused s"
    with known show "streams (GET roomId name_param s) c = streams s c"
      by (auto simp: streams_GET_other [OF _ d])
  }
  show "playerName name_param =
          (if name_param = None \<or> name_param = Some [] then ''Anonymous'' else the name_param)"
    by (cases name_param) (simp_all add: playerName_def)
qed

theorem GET_registers_player_witness:
  "reachable busy_room \<and>
   map_of (players (room_at busy_room ''room'')) (playerName None) = None \<and>
   players (room_at (GET ''room'' None busy_room) ''room'') =
     [(''Alice'', origin ''Alice''), (''Bob'', origin ''Bob''),
      (''Anonymous'', origin ''Anonymous'')] \<and>
   enqueued (streams (GET ''room'' None busy_room) 0) =
     enqueued (streams busy_room 0) @ [Player_joined ''Anonymous'' 3] \<and>
   enqueued (streams (GET ''room'' None busy_room) 1) =
     enqueued (streams busy_room 1) @ [Player_joined ''Anonymous'' 3] \<and>
   console (GET ''room'' None busy_room) =
     console busy_room @ [Broadcasting 2 ''room'' (Player_joined ''Anonymous'' 3)] \<and>
   map_of (players (room_at busy_room ''room'')) (playerName (Some ''Alice'')) \<noteq> None \<and>
   players (room_at (GET ''room'' (Some ''Alice'') busy_room) ''room'') =
     players (room_at busy_room ''room'') \<and>
   streams (GET ''room'' (Some ''Alice'') busy_room) 0 = streams busy_room 0 \<and>
   streams (GET ''room'' (Some ''Alice'') busy_room) 1 = streams busy_room 1 \<and>
   console (GET ''room'' (Some ''Alice'') busy_room) = console busy_room"
  using GET_registers_player [OF reachable_busy_room, of "''room''" None]
    GET_registers_player [OF reachable_busy_room, of "''room''" "Some ''Alice''"]
    reachable_busy_room
  by (simp add: busy_room_facts playerName_def origin_def after_broadcast_def)

theorem GET_registers_player_counterexample:
  "players (room_at (GET ''room'' None start_server) ''room'') =
     [(''Anonymous'',
       \<lparr>x = Some (JNumber 0), y = Some (JNumber 0), z = Some (JNumber 0),
        name = ''Anonymous''\<rparr>)] \<and>
   console (GET ''room'' None start_server) =
     [Broadcasting 0 ''room'' (Player_joined ''Anonymous'' 1)] \<and>
   enqueued (streams (GET ''room'' None (GET ''room'' (Some ''Alice'') start_server)) 0) =
     [Init [] [origin ''Alice''], Player_joined ''Anonymous'' 2]"
  by code_simp

text \<open>
  C6. On a reachable server, when the request of a connection aborts, its listener
  removes the connection's controller from the room's clients, deletes the player stored
  under the connection's name (whether this connection registered it or found it there),
  and broadcasts \<^verbatim>\<open>player_left\<close> with that name and the player count after the deletion:
  the event is appended to the stream of every remaining client of the room whose stream
  is not broken (those whose stream is broken leave the clients), and every other stream
  is as it was. The listener is used up: whatever requests follow, a later abort of the
  same connection changes nothing.
\<close>

theorem abort_cleanup:
  assumes "reachable s" and "listeners s c = Some (roomId, n)"
  shows "c \<notin> set (clients (room_at (abort c s) roomId)) \<and>
         clients (room_at (abort c s) roomId) =
           filter (\<lambda>c'. \<not> broken (streams s c')) (removeAll c (clients (room_at s roomId))) \<and>
         players (room_at (abort c s) roomId) = AList.delete n (players (room_at s roomId)) \<and>
         map_of (players (room_at (abort c s) roomId)) n = None \<and>
         (\<forall>c'. streams (abort c s) c' =
            after_broadcast (Player_left n (length (players (room_at (abort c s) roomId))))
              (removeAll c (clients (room_at s roomId))) s c') \<and>
         console (abort c s) =
           console s @
             [Broadcasting (length (removeAll c (clients (room_at s roomId)))) roomId
                (Player_left n (length (players (room_at (abort c s) roomId))))] \<and>
         listeners (abort c s) c = None \<and>
         (\<forall>reqs. abort c (run reqs (abort c s)) = run reqs (abort c s))"
proof -
  have room: "rooms s roomId \<noteq> None"
    using reachable_listener_room [OF assms] by blast
  note d = reachable_clients_distinct [OF assms(1), of roomId]
  have p: "players (room_at (abort c s) roomId) = AList.delete n (players (room_at s roomId))"
    using assms(2) by (simp add: room_at_abort)
  have "abort c (run reqs (abort c s)) = run reqs (abort c s)" for reqs
  proof (rule room_at_abort_idle)
    have "c < unused (abort c s)"
      using reachable_listener_used [OF assms] by simp
    moreover have "listeners (abort c s) c = None"
      by (simp add: listeners_abort)
    ultimately show "listeners (run reqs (abort c s)) c = None"
      using used_up_run by blast
  qed
  moreover have "streams (abort c s) c' =
      after_broadcast (Player_left n (length (players (room_at (abort c s) roomId))))
        (removeAll c (clients (room_at s roomId))) s c'" for c'
    unfolding p by (rule streams_abort [OF assms(2) d])
  moreover have "console (abort c s) =
      console s @
        [Broadcasting (length (removeAll c (clients (room_at s roomId)))) roomId
           (Player_left n (length (players (room_at (abort c s) roomId))))]"
    unfolding p by (rule console_abort_room_at [OF assms(2) room])
  ultimately show ?thesis
    using assms(2) by (simp add: room_at_abort listeners_abort AList.delete_conv')
qed

theorem abort_cleanup_witness:
  "reachable busy_room \<and>
   listeners busy_room 1 = Some (''room'', ''Bob'') \<and>
   clients (room_at (abort 1 busy_room) ''room'') = [0] \<and>
   players (room_at (abort 1 busy_room) ''room'') = [(''Alice'', origin ''Alice'')] \<and>
   enqueued (streams (abort 1 busy_room) 0) =
     enqueued (streams busy_room 0) @ [Player_left ''Bob'' 1] \<and>
   streams (abort 1 busy_room) 1 = streams busy_room 1 \<and>
   console (abort 1 busy_room) =
     console busy_room @ [Broadcasting 1 ''room'' (Player_left ''Bob'' 1)] \<and>
   abort 1 (run [Subscribe ''room'' (Some ''Bob'')] (abort 1 busy_room)) =
     run [Subscribe ''room'' (Some ''Bob'')] (abort 1 busy_room)"
proof -
  have l: "listeners busy_room 1 = Some (''room'', ''Bob'')"
    by (simp add: busy_room_facts)
  note T = abort_cleanup [OF reachable_busy_room l]
  from T have o: "abort 1 (run [Subscribe ''room'' (Some ''Bob'')] (abort 1 busy_room)) =
                  run [Subscribe ''room'' (Some ''Bob'')] (abort 1 busy_room)"
    by blast
  from T have "players (room_at (abort 1 busy_room) ''room'') = [(''Alice'', origin ''Alice'')]"
    by (simp add: busy_room_facts)
  with T reachable_busy_room l o show ?thesis
    by (simp add: busy_room_facts after_broadcast_def)
qed

theorem abort_cleanup_counterexample:
  "players (room_at (GET ''room'' (Some ''Alice'') start_server) ''room'') =
     [(''Alice'', origin ''Alice'')] \<and>
   players (room_at same_name_twice ''room'') = [(''Alice'', origin ''Alice'')] \<and>
   console same_name_twice = console (GET ''room'' (Some ''Alice'') start_server) \<and>
   clients (room_at same_name_twice ''room'') = [0, 1] \<and>
   listeners same_name_twice 1 = Some (''room'', ''Alice'') \<and>
   players (room_at (abort 1 same_name_twice) ''room'') = [] \<and>
   clients (room_at (abort 1 same_name_twice) ''room'') = [0]"
  by code_simp




text \<open>
  C8. On a fresh server, an add without a block is answered with status 500 and leaves an
  \<^verbatim>\<open>undefined\<close> entry in the room's blocks. A remove of the id \<^verbatim>\<open>b1\<close>, which no block of
  the room has, is then answered with status 500 as well, and nothing is broadcast.
\<close>

theorem remove_after_add_without_block:
  "fst (POST ''room'' (JSON add_without_block) start_server) = Internal_server_error \<and>
   blocks (room_at poisoned_room ''room'') = [None] \<and>
   block_ids (blocks (room_at poisoned_room ''room'')) = [] \<and>
   fst (POST ''room'' (remove_body (JString ''b1'') ''Bob'') poisoned_room) =
     Internal_server_error \<and>
   console (snd (POST ''room'' (remove_body (JString ''b1'') ''Bob'') poisoned_room)) =
     console poisoned_room"
  by code_simp

text \<open>
  C9. For an \<^verbatim>\<open>update_position\<close> submission:
  \<^item> when, on a reachable server, the sender is the name of a player of the room and the
    position is truthy (any object is), the answer is success, the \<^verbatim>\<open>x\<close>, \<^verbatim>\<open>y\<close>, \<^verbatim>\<open>z\<close>
    of that player are overwritten with those of the position, every other player and
    the blocks are as before, and \<^verbatim>\<open>player_moved\<close> with that name and position is
    broadcast: it is appended to the stream of every client of the room whose stream is
    not broken, and every other stream is as it was;
  \<^item> when the payload gets past the first log line (its sender is missing or can be
    converted to a string) and the sender is not the name of a player of the room, the
    answer is success and the server is as \<^verbatim>\<open>getOrCreateRoom\<close> left it: no stream and no
    existing room changes, nothing is broadcast, and the server is unchanged if the room
    existed. If it did not, the room is created: that is a change of state.
\<close>

theorem update_position_moves_player:
  fixes s :: server and roomId :: string and d :: json
  defines "s' \<equiv> snd (POST roomId (JSON d) s)"
  assumes "property ''action'' (Some d) = Some (JString ''update_position'')"
  shows "(\<forall>n player.
            reachable s \<and> property ''sender'' (Some d) = Some (JString n) \<and>
            truthy (property ''position'' (Some d)) \<and>
            map_of (players (room_at s roomId)) n = Some player \<longrightarrow>
              fst (POST roomId (JSON d) s) = Success \<and>
              players (room_at s' roomId) =
                AList.map_entry n
                  (\<lambda>player. player\<lparr>x := property ''x'' (property ''position'' (Some d)),
                                    y := property ''y'' (property ''position'' (Some d)),
                                    z := property ''z'' (property ''position'' (Some d))\<rparr>)
                  (players (room_at s roomId)) \<and>
              map_of (players (room_at s' roomId)) n =
                Some (player\<lparr>x := property ''x'' (property ''position'' (Some d)),
                             y := property ''y'' (property ''position'' (Some d)),
                             z := property ''z'' (property ''position'' (Some d))\<rparr>) \<and>
              (\<forall>m. m \<noteq> n \<longrightarrow>
                 map_of (players (room_at s' roomId)) m = map_of (players (room_at s roomId)) m) \<and>
              blocks (room_at s' roomId) = blocks (room_at s roomId) \<and>
              (\<forall>c. streams s' c =
                 after_broadcast (Player_moved n (property ''position'' (Some d)))
                   (clients (room_at s roomId)) s c) \<and>
              console s' =
                console s @
                  [Broadcasting (length (clients (room_at s roomId))) roomId
                     (Player_moved n (property ''position'' (Some d)))]) \<and>
         (first_log d \<and>
          (\<forall>n. property ''sender'' (Some d) = Some (JString n) \<longrightarrow>
             map_of (players (room_at s roomId)) n = None) \<longrightarrow>
            POST roomId (JSON d) s = (Success, getOrCreateRoom roomId s) \<and>
            console s' = console s \<and> streams s' = streams s \<and>
            (\<forall>r. room_at s' r = room_at s r) \<and>
            (\<forall>r. r \<noteq> roomId \<longrightarrow> rooms s' r = rooms s r) \<and>
            (rooms s roomId \<noteq> None \<longrightarrow> s' = s))"
proof (intro conjI allI impI)
  fix n player
  assume a: "reachable s \<and> property ''sender'' (Some d) = Some (JString n) \<and>
             truthy (property ''position'' (Some d)) \<and>
             map_of (players (room_at s roomId)) n = Some player"
  let ?p = "property ''position'' (Some d)"
  let ?f = "\<lambda>room. room\<lparr>players :=
              AList.map_entry n
                (\<lambda>player. player\<lparr>x := property ''x'' ?p, y := property ''y'' ?p,
                                  z := property ''z'' ?p\<rparr>)
                (players room)\<rparr>"
  from a have "(n, player) \<in> set (players (room_at s roomId))"
    by (simp add: map_of_SomeD)
  then have "n \<in> set (map fst (players (room_at s roomId)))"
    by (force simp: image_iff)
  with a reachable_names [of s roomId] have n: "n \<noteq> []"
    by blast
  have fl: "first_log d"
    using a assms(2) by (rule_tac first_log_string) simp_all
  have dist: "distinct (clients (room_at s roomId))"
    using a by (simp add: reachable_clients_distinct)
  have P: "POST roomId (JSON d) s =
             (Success,
              broadcastToRoom roomId (Player_moved n ?p)
                (modify_room roomId ?f (getOrCreateRoom roomId s)))"
    using a n fl assms(2) by (simp add: POST_update_position)
  show "fst (POST roomId (JSON d) s) = Success"
    by (simp add: P)
  show pl: "players (room_at s' roomId) =
          AList.map_entry n
            (\<lambda>player. player\<lparr>x := property ''x'' ?p, y := property ''y'' ?p,
                              z := property ''z'' ?p\<rparr>)
            (players (room_at s roomId))"
    by (simp add: s'_def P)
  show "map_of (players (room_at s' roomId)) n =
          Some (player\<lparr>x := property ''x'' ?p, y := property ''y'' ?p, z := property ''z'' ?p\<rparr>)"
    using a by (simp add: pl map_of_map_entry)
  show "blocks (room_at s' roomId) = blocks (room_at s roomId)"
    by (simp add: s'_def P)
  show "console s' =
          console s @
            [Broadcasting (length (clients (room_at s roomId))) roomId (Player_moved n ?p)]"
    unfolding s'_def P snd_conv by (rule console_broadcast_modified) simp
  show "streams s' c =
          after_broadcast (Player_moved n ?p) (clients (room_at s roomId)) s c" for c
    unfolding s'_def P snd_conv by (rule streams_broadcast_modified [OF dist]) simp
  fix m assume "m \<noteq> n"
  then show "map_of (players (room_at s' roomId)) m = map_of (players (room_at s roomId)) m"
    by (simp add: pl map_of_map_entry)
next
  assume a: "first_log d \<and>
             (\<forall>n. property ''sender'' (Some d) = Some (JString n) \<longrightarrow>
                map_of (players (room_at s roomId)) n = None)"
  show P: "POST roomId (JSON d) s = (Success, getOrCreateRoom roomId s)"
    using a assms(2) by (auto simp: POST_update_position split: option.splits json.splits)
  show "console s' = console s" "streams s' = streams s"
    by (simp_all add: s'_def P)
  show "room_at s' r = room_at s r" for r
    by (simp add: s'_def P)
  show "rooms s' r = rooms s r" if "r \<noteq> roomId" for r
    using that by (simp add: s'_def P rooms_getOrCreateRoom)
  show "s' = s" if "rooms s roomId \<noteq> None"
    using that by (simp add: s'_def P getOrCreateRoom_existing)
qed

theorem update_position_moves_player_witness:
  "reachable busy_room \<and>
   property ''action'' (Some alice_moves) = Some (JString ''update_position'') \<and>
   map_of (players (room_at busy_room ''room'')) ''Alice'' = Some (origin ''Alice'') \<and>
   fst (POST ''room'' (JSON alice_moves) busy_room) = Success \<and>
   players (room_at (snd (POST ''room'' (JSON alice_moves) busy_room)) ''room'') =
     [(''Alice'',
       \<lparr>x = Some (JNumber 2), y = Some (JNumber 0), z = Some (JNumber 3), name = ''Alice''\<rparr>),
      (''Bob'', origin ''Bob'')] \<and>
   enqueued (streams (snd (POST ''room'' (JSON alice_moves) busy_room)) 0) =
     enqueued (streams busy_room 0) @ [Player_moved ''Alice'' (Some position_203)] \<and>
   enqueued (streams (snd (POST ''room'' (JSON alice_moves) busy_room)) 1) =
     enqueued (streams busy_room 1) @ [Player_moved ''Alice'' (Some position_203)] \<and>
   console (snd (POST ''room'' (JSON alice_moves) busy_room)) =
     console busy_room @
       [Broadcasting 2 ''room'' (Player_moved ''Alice'' (Some position_203))] \<and>
   property ''action'' (Some zed_moves) = Some (JString ''update_position'') \<and>
   first_log zed_moves \<and>
   map_of (players (room_at busy_room ''room'')) ''Zed'' = None \<and>
   POST ''room'' (JSON zed_moves) busy_room = (Success, busy_room)"
proof -
  have 2: "property ''action'' (Some alice_moves) = Some (JString ''update_position'')"
    "property ''sender'' (Some alice_moves) = Some (JString ''Alice'')"
    "property ''position'' (Some alice_moves) = Some position_203"
    "truthy (Some position_203)"
    "property ''x'' (Some position_203) = Some (JNumber 2)"
    "property ''y'' (Some position_203) = Some (JNumber 0)"
    "property ''z'' (Some position_203) = Some (JNumber 3)"
    by code_simp+
  have 3: "property ''action'' (Some zed_moves) = Some (JString ''update_position'')"
    "property ''sender'' (Some zed_moves) = Some (JString ''Zed'')"
    "first_log zed_moves"
    by code_simp+
  have 4: "getOrCreateRoom ''room'' busy_room = busy_room"
    by (rule getOrCreateRoom_existing) (simp add: busy_room_facts)
  have 5: "map_of (players (room_at busy_room ''room'')) ''Alice'' = Some (origin ''Alice'')"
    "map_of (players (room_at busy_room ''room'')) ''Zed'' = None"
    by (simp_all add: busy_room_facts)
  note A = update_position_moves_player [OF 2(1), where roomId = "''room''" and s = busy_room,
             THEN conjunct1, rule_format, of "''Alice''" "origin ''Alice''"]
  note Z = update_position_moves_player [OF 3(1), where roomId = "''room''" and s = busy_room,
             THEN conjunct2, rule_format]
  have a: "fst (POST ''room'' (JSON alice_moves) busy_room) = Success"
    "players (room_at (snd (POST ''room'' (JSON alice_moves) busy_room)) ''room'') =
       [(''Alice'',
         \<lparr>x = Some (JNumber 2), y = Some (JNumber 0), z = Some (JNumber 3), name = ''Alice''\<rparr>),
        (''Bob'', origin ''Bob'')]"
    "streams (snd (POST ''room'' (JSON alice_moves) busy_room)) 0 =
       after_broadcast (Player_moved ''Alice'' (Some position_203)) [0, Suc 0] busy_room 0"
    "streams (snd (POST ''room'' (JSON alice_moves) busy_room)) (Suc 0) =
       after_broadcast (Player_moved ''Alice'' (Some position_203)) [0, Suc 0] busy_room (Suc 0)"
    "console (snd (POST ''room'' (JSON alice_moves) busy_room)) =
       console busy_room @
         [Broadcasting 2 ''room'' (Player_moved ''Alice'' (Some position_203))]"
    using A reachable_busy_room 2 5 by (simp_all add: busy_room_facts origin_def)
  have z: "POST ''room'' (JSON zed_moves) busy_room = (Success, busy_room)"
    using Z 3 4 5 by simp
  show ?thesis
    using a z 2 3 5 reachable_busy_room
    by (simp add: busy_room_facts after_broadcast_def origin_def)
qed

theorem update_position_moves_player_counterexample:
  "property ''action'' (Some zed_moves) = Some (JString ''update_position'') \<and>
   map_of (players (room_at start_server ''lobby'')) ''Zed'' = None \<and>
   fst (POST ''lobby'' (JSON zed_moves) start_server) = Success \<and>
   rooms start_server ''lobby'' = None \<and>
   rooms (snd (POST ''lobby'' (JSON zed_moves) start_server)) ''lobby'' = Some new_room \<and>
   snd (POST ''lobby'' (JSON zed_moves) start_server) \<noteq> start_server"
proof -
  have 1: "property ''action'' (Some zed_moves) = Some (JString ''update_position'')"
    "map_of (players (room_at start_server ''lobby'')) ''Zed'' = None"
    "fst (POST ''lobby'' (JSON zed_moves) start_server) = Success"
    "rooms start_server ''lobby'' = None"
    "rooms (snd (POST ''lobby'' (JSON zed_moves) start_server)) ''lobby'' = Some new_room"
    by code_simp+
  from 1(4,5) have "snd (POST ''lobby'' (JSON zed_moves) start_server) \<noteq> start_server"
    by auto
  with 1 show ?thesis by simp
qed

text \<open>
  C10. A POST that gets past the first log line (its body parses to a JSON value other
  than \<^verbatim>\<open>null\<close>, its action can be converted to a string, and its sender is falsy or can
  be converted to a string) leaves a room under its room id, and no other new room. When
  its action is not one of the four known ones, the answer is the invalid-action error,
  nothing is broadcast or written to a stream, no room that existed changes, and if there
  was no room under the room id the map of rooms grows by that one empty room. A POST
  whose body does not parse, or that does not get past the first log line, is answered
  with the internal server error and leaves the server as it was: it creates no room.
\<close>

theorem POST_creates_room:
  fixes s :: server and roomId :: string and d :: json
  defines "s' \<equiv> snd (POST roomId (JSON d) s)"
  shows "(first_log d \<longrightarrow>
            dom (rooms s') = insert roomId (dom (rooms s)) \<and>
            (\<not> recognized (property ''action'' (Some d)) \<longrightarrow>
               fst (POST roomId (JSON d) s) = Invalid_action \<and>
               console s' = console s \<and> streams s' = streams s \<and>
               (\<forall>r. room_at s' r = room_at s r) \<and>
               (\<forall>r. r \<noteq> roomId \<longrightarrow> rooms s' r = rooms s r) \<and>
               (rooms s roomId = None \<longrightarrow> rooms s' = (rooms s)(roomId \<mapsto> new_room)))) \<and>
         (\<not> first_log d \<longrightarrow> POST roomId (JSON d) s = (Internal_server_error, s)) \<and>
         POST roomId JSON_error s = (Internal_server_error, s)"
proof -
  have "rooms (getOrCreateRoom roomId s) = (rooms s)(roomId \<mapsto> new_room)"
    if "rooms s roomId = None"
    using that by (simp add: getOrCreateRoom_def)
  moreover have "dom (rooms s') = insert roomId (dom (rooms s))" if "first_log d"
    unfolding s'_def using that by (simp add: dom_rooms_POST)
  ultimately show ?thesis
    by (simp add: s'_def POST_unrecognized POST_no_log rooms_getOrCreateRoom)
qed

theorem POST_creates_room_witness:
  "first_log unknown_action \<and>
   \<not> recognized (property ''action'' (Some unknown_action)) \<and>
   rooms busy_room ''lobby'' = None \<and>
   fst (POST ''lobby'' (JSON unknown_action) busy_room) = Invalid_action \<and>
   rooms (snd (POST ''lobby'' (JSON unknown_action) busy_room)) ''lobby'' = Some new_room \<and>
   dom (rooms (snd (POST ''lobby'' (JSON unknown_action) busy_room))) =
     insert ''lobby'' (dom (rooms busy_room)) \<and>
   console (snd (POST ''lobby'' (JSON unknown_action) busy_room)) = console busy_room \<and>
   streams (snd (POST ''lobby'' (JSON unknown_action) busy_room)) = streams busy_room \<and>
   room_at (snd (POST ''lobby'' (JSON unknown_action) busy_room)) ''room'' =
     room_at busy_room ''room'' \<and>
   \<not> first_log action_without_string \<and>
   POST ''lobby'' (JSON action_without_string) busy_room = (Internal_server_error, busy_room) \<and>
   \<not> first_log sender_without_string \<and>
   POST ''lobby'' (JSON sender_without_string) busy_room = (Internal_server_error, busy_room)"
proof -
  have 1: "first_log unknown_action"
    "\<not> recognized (property ''action'' (Some unknown_action))"
    by code_simp+
  have 2: "rooms busy_room ''lobby'' = None"
    by code_simp
  have 3: "\<not> first_log action_without_string" "\<not> first_log sender_without_string"
    by code_simp+
  show ?thesis
    using POST_creates_room [where d = unknown_action and roomId = "''lobby''" and s = busy_room]
      POST_creates_room [where d = action_without_string and roomId = "''lobby''" and s = busy_room]
      POST_creates_room [where d = sender_without_string and roomId = "''lobby''" and s = busy_room]
      1 2 3
    by simp
qed

theorem POST_creates_room_counterexample:
  "rooms start_server ''lobby'' = None \<and>
   fst (POST ''lobby'' (JSON JNull) start_server) = Internal_server_error \<and>
   rooms (snd (POST ''lobby'' (JSON JNull) start_server)) ''lobby'' = None \<and>
   fst (POST ''lobby'' JSON_error start_server) = Internal_server_error \<and>
   rooms (snd (POST ''lobby'' JSON_error start_server)) ''lobby'' = None \<and>
   fst (POST ''lobby'' (JSON action_without_string) start_server) = Internal_server_error \<and>
   rooms (snd (POST ''lobby'' (JSON action_without_string) start_server)) ''lobby'' = None"
  by code_simp

end
